theory Spec2Isabelle
  imports Main "HOL-Library.Word"
begin

unbundle bit_operations_syntax

section \<open>The storage engine of \<open>absl::InlinedVector\<close> (\<open>inlined_vector.h\<close>)\<close>

text \<open>
  A shallow embedding of \<open>absl::inlined_vector_internal::Storage<T, N, A>\<close>.
  The class is a template: the element type \<open>T\<close>, the inline capacity \<open>N\<close> and the
  allocator \<open>A\<close> are parameters of the model (the record \<open>Instantiation\<close>).
  Memory is an explicit store: the \<open>Storage\<close> objects (each holding its packed size word
  and the union \<open>data\<close>) and the heap blocks the allocator handed out. A slot of a
  buffer is \<open>None\<close> while it holds no live element and \<open>Some v\<close> while it holds one.
  C++ exceptions are the status \<open>Throw\<close>; behaviour the C++ standard leaves undefined
  (an access outside a buffer, reading or destroying a slot that holds no element,
  a failed \<open>assert\<close>) is the status \<open>Undefined\<close>, which nothing catches.
\<close>

subsection \<open>Template parameters\<close>

type_synonym SizeType = "64 word"
  \<comment> \<open>\<open>SizeType<A>\<close> is \<open>std::size_t\<close> for \<open>std::allocator\<close>; 64 bits on the targets of the repository\<close>

record 'a Instantiation =
  N :: nat
    \<comment> \<open>the template parameter \<open>N\<close>, the inline capacity\<close>
  copy_construct :: "'a \<Rightarrow> 'a option"
    \<comment> \<open>\<open>T(const T&)\<close>: the new object, or \<open>None\<close> when the constructor throws\<close>
  move_construct :: "'a \<Rightarrow> ('a \<times> 'a) option"
    \<comment> \<open>\<open>T(T&&)\<close>: the new object and what is left in the source, or \<open>None\<close> when it throws\<close>
  default_construct :: "'a option"
    \<comment> \<open>\<open>T()\<close>\<close>
  copy_assign :: "'a \<Rightarrow> 'a \<Rightarrow> 'a option"
    \<comment> \<open>\<open>dst = src\<close>, from the old \<open>dst\<close> and \<open>src\<close>: the new \<open>dst\<close>, or \<open>None\<close> when it throws\<close>
  move_assign :: "'a \<Rightarrow> 'a \<Rightarrow> ('a \<times> 'a) option"
    \<comment> \<open>\<open>dst = std::move(src)\<close> on two objects: the new \<open>dst\<close> and what is left in \<open>src\<close>\<close>
  self_move_assign :: "'a \<Rightarrow> 'a option"
    \<comment> \<open>\<open>x = std::move(x)\<close>, \<open>T::operator=(T&&)\<close> run on one object: what \<open>x\<close> holds afterwards\<close>
  max_size :: nat
    \<comment> \<open>the allocator \<open>A\<close>: \<open>allocate(n)\<close> throws when \<open>n\<close> exceeds this\<close>
  IsMemcpyOk :: bool
    \<comment> \<open>the trait \<open>IsMemcpyOk<A>::value\<close>\<close>

subsection \<open>Pointers, the store and the allocator\<close>

datatype region = InlinedBuffer nat | HeapBlock nat
  \<comment> \<open>the inline buffer of the \<open>Storage\<close> object with that identity, or a heap block\<close>

datatype Pointer = nullptr | Ptr region int
  \<comment> \<open>a \<open>T*\<close>: the buffer it points into and the element offset\<close>

fun ptr_add :: "Pointer \<Rightarrow> int \<Rightarrow> Pointer" where
  "ptr_add nullptr n = nullptr"
| "ptr_add (Ptr r i) n = Ptr r (i + n)"

datatype status = Normal | Throw | Undefined

datatype event = AllocateCall nat SizeType | DeallocateCall nat SizeType | ConstructCall Pointer | DestroyCall Pointer
  \<comment> \<open>the calls made to \<open>AllocatorTraits<A>\<close>, in order\<close>

datatype 'a Data = Allocated Pointer SizeType | Inlined "'a option list"
  \<comment> \<open>\<open>union Data\<close>: the member that was written last\<close>

record 'a Storage =
  allocator :: nat
  size_and_is_allocated :: SizeType
  data :: "'a Data"

record 'a World =
  storages :: "nat \<Rightarrow> 'a Storage"
  heap :: "nat \<rightharpoonup> 'a option list"
  next_block :: nat
  trace :: "event list"

definition upd_storage :: "nat \<Rightarrow> ('a Storage \<Rightarrow> 'a Storage) \<Rightarrow> 'a World \<Rightarrow> 'a World" where
  "upd_storage this f w = w\<lparr>storages := (storages w)(this := f (storages w this))\<rparr>"

definition log_event :: "event \<Rightarrow> 'a World \<Rightarrow> 'a World" where
  "log_event e w = w\<lparr>trace := trace w @ [e]\<rparr>"

fun get_buffer :: "'a Instantiation \<Rightarrow> 'a World \<Rightarrow> region \<Rightarrow> 'a option list option" where
  "get_buffer P w (InlinedBuffer i) =
     (case data (storages w i) of
        Inlined xs \<Rightarrow> Some xs
      | Allocated p c \<Rightarrow> Some (replicate (N P) None))"
| "get_buffer P w (HeapBlock a) = heap w a"

fun put_buffer :: "'a World \<Rightarrow> region \<Rightarrow> 'a option list \<Rightarrow> 'a World" where
  "put_buffer w (InlinedBuffer i) xs = upd_storage i (\<lambda>s. s\<lparr>data := Inlined xs\<rparr>) w"
| "put_buffer w (HeapBlock a) xs = w\<lparr>heap := (heap w)(a \<mapsto> xs)\<rparr>"

text \<open>
  Reading the inline bytes while the union holds the \<open>Allocated\<close> member finds no element
  there; writing an element there makes \<open>Inlined\<close> the member the union holds (the pointer
  and the capacity are overwritten).
\<close>

definition load :: "'a Instantiation \<Rightarrow> 'a World \<Rightarrow> Pointer \<Rightarrow> 'a option" where
  "load P w p =
     (case p of
        nullptr \<Rightarrow> None
      | Ptr r i \<Rightarrow>
          (case get_buffer P w r of
             None \<Rightarrow> None
           | Some xs \<Rightarrow> if 0 \<le> i \<and> nat i < length xs then xs ! nat i else None))"

definition store :: "'a Instantiation \<Rightarrow> 'a World \<Rightarrow> Pointer \<Rightarrow> 'a option \<Rightarrow> 'a World option" where
  "store P w p x =
     (case p of
        nullptr \<Rightarrow> None
      | Ptr r i \<Rightarrow>
          (case get_buffer P w r of
             None \<Rightarrow> None
           | Some xs \<Rightarrow>
               if 0 \<le> i \<and> nat i < length xs then Some (put_buffer w r (xs[nat i := x])) else None))"

text \<open>\<open>AllocatorTraits<A>::allocate\<close>, \<open>deallocate\<close>, \<open>construct\<close> and \<open>destroy\<close>.\<close>

definition allocate :: "'a Instantiation \<Rightarrow> SizeType \<Rightarrow> 'a World \<Rightarrow> status \<times> Pointer \<times> 'a World" where
  "allocate P n w =
     (if max_size P < unat n then (Throw, nullptr, w)
      else (Normal, Ptr (HeapBlock (next_block w)) 0,
            log_event (AllocateCall (next_block w) n)
              (w\<lparr>heap := (heap w)(next_block w \<mapsto> replicate (unat n) None),
                 next_block := Suc (next_block w)\<rparr>)))"

definition deallocate :: "'a Instantiation \<Rightarrow> Pointer \<Rightarrow> SizeType \<Rightarrow> 'a World \<Rightarrow> status \<times> 'a World" where
  "deallocate P p n w =
     (case p of
        Ptr (HeapBlock a) i \<Rightarrow>
          (if i = 0 \<and> (case heap w a of Some xs \<Rightarrow> length xs = unat n | None \<Rightarrow> False)
           then (Normal, log_event (DeallocateCall a n) (w\<lparr>heap := (heap w)(a := None)\<rparr>))
           else (Undefined, w))
      | _ \<Rightarrow> (Undefined, w))"

definition construct_value :: "'a Instantiation \<Rightarrow> Pointer \<Rightarrow> 'a option \<Rightarrow> 'a World \<Rightarrow> status \<times> 'a World" where
  \<comment> \<open>\<open>construct(allocator, p, args...)\<close> for a constructor call that reads nothing of the store:
      the second argument is what \<open>T(args...)\<close> gives, \<open>None\<close> when it throws\<close>
  "construct_value P p outcome w =
     (case outcome of
        None \<Rightarrow> (Throw, w)
      | Some v \<Rightarrow>
          (case store P w p (Some v) of
             None \<Rightarrow> (Undefined, w)
           | Some w' \<Rightarrow> (Normal, log_event (ConstructCall p) w')))"

definition construct_move :: "'a Instantiation \<Rightarrow> Pointer \<Rightarrow> Pointer \<Rightarrow> 'a World \<Rightarrow> status \<times> 'a World" where
  \<comment> \<open>\<open>construct(allocator, p, std::move(*q))\<close>\<close>
  "construct_move P p q w =
     (case load P w q of
        None \<Rightarrow> (Undefined, w)
      | Some v \<Rightarrow>
          (case move_construct P v of
             None \<Rightarrow> (Throw, w)
           | Some (v', left) \<Rightarrow>
               (case store P w q (Some left) of
                  None \<Rightarrow> (Undefined, w)
                | Some w1 \<Rightarrow>
                    (case store P w1 p (Some v') of
                       None \<Rightarrow> (Undefined, w)
                     | Some w2 \<Rightarrow> (Normal, log_event (ConstructCall p) w2)))))"

definition destroy :: "'a Instantiation \<Rightarrow> Pointer \<Rightarrow> 'a World \<Rightarrow> status \<times> 'a World" where
  "destroy P p w =
     (case load P w p of
        None \<Rightarrow> (Undefined, w)
      | Some v \<Rightarrow>
          (case store P w p None of
             None \<Rightarrow> (Undefined, w)
           | Some w' \<Rightarrow> (Normal, log_event (DestroyCall p) w')))"

subsection \<open>\<open>DestroyElements\<close>, the value adapters, \<open>ConstructElements\<close>, \<open>AssignElements\<close>\<close>

fun DestroyElements_loop :: "'a Instantiation \<Rightarrow> Pointer \<Rightarrow> nat \<Rightarrow> 'a World \<Rightarrow> status \<times> 'a World" where
  "DestroyElements_loop P destroy_first 0 w = (Normal, w)"
| "DestroyElements_loop P destroy_first (Suc i) w =
     (case destroy P (ptr_add destroy_first (int i)) w of
        (Normal, w') \<Rightarrow> DestroyElements_loop P destroy_first i w'
      | (st, w') \<Rightarrow> (st, w'))"

definition DestroyElements :: "'a Instantiation \<Rightarrow> Pointer \<Rightarrow> SizeType \<Rightarrow> 'a World \<Rightarrow> status \<times> 'a World" where
  "DestroyElements P destroy_first destroy_size w =
     (if destroy_first \<noteq> nullptr then DestroyElements_loop P destroy_first (unat destroy_size) w
      else (Normal, w))"

datatype 'a ValueAdapter =
    IteratorValueAdapter "'a list"
      \<comment> \<open>over an iterator of a range outside the store: the values still ahead of \<open>it_\<close>\<close>
  | MoveValueAdapter Pointer
      \<comment> \<open>\<open>IteratorValueAdapter<A, MoveIterator<A>>\<close>: \<open>it_\<close> points into a buffer of the store\<close>
  | CopyValueAdapter 'a
  | DefaultValueAdapter

fun ConstructNext :: "'a Instantiation \<Rightarrow> 'a ValueAdapter \<Rightarrow> Pointer \<Rightarrow> 'a World
    \<Rightarrow> status \<times> 'a ValueAdapter \<times> 'a World" where
  "ConstructNext P (IteratorValueAdapter []) construct_at w = (Undefined, IteratorValueAdapter [], w)"
| "ConstructNext P (IteratorValueAdapter (v # it)) construct_at w =
     (case construct_value P construct_at (copy_construct P v) w of
        (Normal, w') \<Rightarrow> (Normal, IteratorValueAdapter it, w')
      | (st, w') \<Rightarrow> (st, IteratorValueAdapter (v # it), w'))"
| "ConstructNext P (MoveValueAdapter it) construct_at w =
     (case construct_move P construct_at it w of
        (Normal, w') \<Rightarrow> (Normal, MoveValueAdapter (ptr_add it 1), w')
      | (st, w') \<Rightarrow> (st, MoveValueAdapter it, w'))"
| "ConstructNext P (CopyValueAdapter v) construct_at w =
     (case construct_value P construct_at (copy_construct P v) w of
        (st, w') \<Rightarrow> (st, CopyValueAdapter v, w'))"
| "ConstructNext P DefaultValueAdapter construct_at w =
     (case construct_value P construct_at (default_construct P) w of
        (st, w') \<Rightarrow> (st, DefaultValueAdapter, w'))"

definition assign_value :: "'a Instantiation \<Rightarrow> Pointer \<Rightarrow> 'a \<Rightarrow> 'a World \<Rightarrow> status \<times> 'a World" where
  \<comment> \<open>\<open>*assign_at = v\<close> for a \<open>v\<close> outside the store\<close>
  "assign_value P assign_at v w =
     (case load P w assign_at of
        None \<Rightarrow> (Undefined, w)
      | Some old \<Rightarrow>
          (case copy_assign P old v of
             None \<Rightarrow> (Throw, w)
           | Some new \<Rightarrow>
               (case store P w assign_at (Some new) of
                  None \<Rightarrow> (Undefined, w)
                | Some w' \<Rightarrow> (Normal, w'))))"

definition assign_move :: "'a Instantiation \<Rightarrow> Pointer \<Rightarrow> Pointer \<Rightarrow> 'a World \<Rightarrow> status \<times> 'a World" where
  \<comment> \<open>\<open>*assign_at = std::move(*q)\<close>; when both pointers name one object, the operator runs
      on that object alone\<close>
  "assign_move P assign_at q w =
     (case load P w assign_at of
        None \<Rightarrow> (Undefined, w)
      | Some old \<Rightarrow>
          (case load P w q of
             None \<Rightarrow> (Undefined, w)
           | Some v \<Rightarrow>
               if assign_at = q
               then (case self_move_assign P v of
                       None \<Rightarrow> (Throw, w)
                     | Some x \<Rightarrow>
                         (case store P w q (Some x) of
                            None \<Rightarrow> (Undefined, w)
                          | Some w1 \<Rightarrow> (Normal, w1)))
               else
                 (case move_assign P old v of
                    None \<Rightarrow> (Throw, w)
                  | Some (new, left) \<Rightarrow>
                      (case store P w q (Some left) of
                         None \<Rightarrow> (Undefined, w)
                       | Some w1 \<Rightarrow>
                           (case store P w1 assign_at (Some new) of
                              None \<Rightarrow> (Undefined, w)
                            | Some w2 \<Rightarrow> (Normal, w2))))))"

definition assign_default :: "'a Instantiation \<Rightarrow> Pointer \<Rightarrow> 'a World \<Rightarrow> status \<times> 'a World" where
  \<comment> \<open>\<open>*assign_at = ValueType<A>()\<close>: a temporary is constructed and moved from\<close>
  "assign_default P assign_at w =
     (case load P w assign_at of
        None \<Rightarrow> (Undefined, w)
      | Some old \<Rightarrow>
          (case default_construct P of
             None \<Rightarrow> (Throw, w)
           | Some v \<Rightarrow>
               (case move_assign P old v of
                  None \<Rightarrow> (Throw, w)
                | Some (new, left) \<Rightarrow>
                    (case store P w assign_at (Some new) of
                       None \<Rightarrow> (Undefined, w)
                     | Some w' \<Rightarrow> (Normal, w')))))"

fun AssignNext :: "'a Instantiation \<Rightarrow> 'a ValueAdapter \<Rightarrow> Pointer \<Rightarrow> 'a World
    \<Rightarrow> status \<times> 'a ValueAdapter \<times> 'a World" where
  "AssignNext P (IteratorValueAdapter []) assign_at w = (Undefined, IteratorValueAdapter [], w)"
| "AssignNext P (IteratorValueAdapter (v # it)) assign_at w =
     (case assign_value P assign_at v w of
        (Normal, w') \<Rightarrow> (Normal, IteratorValueAdapter it, w')
      | (st, w') \<Rightarrow> (st, IteratorValueAdapter (v # it), w'))"
| "AssignNext P (MoveValueAdapter it) assign_at w =
     (case assign_move P assign_at it w of
        (Normal, w') \<Rightarrow> (Normal, MoveValueAdapter (ptr_add it 1), w')
      | (st, w') \<Rightarrow> (st, MoveValueAdapter it, w'))"
| "AssignNext P (CopyValueAdapter v) assign_at w =
     (case assign_value P assign_at v w of
        (st, w') \<Rightarrow> (st, CopyValueAdapter v, w'))"
| "AssignNext P DefaultValueAdapter assign_at w =
     (case assign_default P assign_at w of
        (st, w') \<Rightarrow> (st, DefaultValueAdapter, w'))"

text \<open>
  The loop of \<open>ConstructElements\<close>, from index \<open>i\<close> with \<open>k\<close> elements still to construct.
  The \<open>catch\<close> block destroys the \<open>i\<close> elements constructed so far and rethrows.
\<close>

fun ConstructElements_loop :: "'a Instantiation \<Rightarrow> Pointer \<Rightarrow> 'a ValueAdapter \<Rightarrow> nat \<Rightarrow> nat
    \<Rightarrow> 'a World \<Rightarrow> status \<times> 'a ValueAdapter \<times> 'a World" where
  "ConstructElements_loop P construct_first vals i 0 w = (Normal, vals, w)"
| "ConstructElements_loop P construct_first vals i (Suc k) w =
     (case ConstructNext P vals (ptr_add construct_first (int i)) w of
        (Normal, vals', w') \<Rightarrow> ConstructElements_loop P construct_first vals' (Suc i) k w'
      | (Throw, vals', w') \<Rightarrow>
          (case DestroyElements P construct_first (of_nat i) w' of
             (Normal, w'') \<Rightarrow> (Throw, vals', w'')
           | (st, w'') \<Rightarrow> (st, vals', w''))
      | (Undefined, vals', w') \<Rightarrow> (Undefined, vals', w'))"

definition ConstructElements :: "'a Instantiation \<Rightarrow> Pointer \<Rightarrow> 'a ValueAdapter \<Rightarrow> SizeType
    \<Rightarrow> 'a World \<Rightarrow> status \<times> 'a ValueAdapter \<times> 'a World" where
  "ConstructElements P construct_first vals construct_size w =
     ConstructElements_loop P construct_first vals 0 (unat construct_size) w"

fun AssignElements_loop :: "'a Instantiation \<Rightarrow> Pointer \<Rightarrow> 'a ValueAdapter \<Rightarrow> nat \<Rightarrow> nat
    \<Rightarrow> 'a World \<Rightarrow> status \<times> 'a ValueAdapter \<times> 'a World" where
  "AssignElements_loop P assign_first vals i 0 w = (Normal, vals, w)"
| "AssignElements_loop P assign_first vals i (Suc k) w =
     (case AssignNext P vals (ptr_add assign_first (int i)) w of
        (Normal, vals', w') \<Rightarrow> AssignElements_loop P assign_first vals' (Suc i) k w'
      | (st, vals', w') \<Rightarrow> (st, vals', w'))"

definition AssignElements :: "'a Instantiation \<Rightarrow> Pointer \<Rightarrow> 'a ValueAdapter \<Rightarrow> SizeType
    \<Rightarrow> 'a World \<Rightarrow> status \<times> 'a ValueAdapter \<times> 'a World" where
  "AssignElements P assign_first vals assign_size w =
     AssignElements_loop P assign_first vals 0 (unat assign_size) w"

subsection \<open>The capacity policy\<close>

definition NextCapacity :: "SizeType \<Rightarrow> SizeType" where
  "NextCapacity current_capacity = current_capacity * 2"

definition ComputeCapacity :: "SizeType \<Rightarrow> SizeType \<Rightarrow> SizeType" where
  "ComputeCapacity current_capacity requested_capacity =
     max (NextCapacity current_capacity) requested_capacity"

subsection \<open>The transaction guards\<close>

text \<open>
  A guard is a value; its destructor is a function that the operations below call on every
  path that leaves the guard's scope by an exception (\<open>unwind\<close>, in reverse order of
  declaration). After \<open>Reset\<close> or \<open>Commit\<close> the destructor does nothing, so the paths that
  leave the scope normally do not call it.
\<close>

definition throw_after :: "status \<times> 'w \<Rightarrow> status \<times> 'w" where
  "throw_after r = (case r of (Normal, w) \<Rightarrow> (Throw, w) | (st, w) \<Rightarrow> (st, w))"

fun unwind :: "('w \<Rightarrow> status \<times> 'w) list \<Rightarrow> 'w \<Rightarrow> status \<times> 'w" where
  "unwind [] w = (Throw, w)"
| "unwind (d # ds) w = (case d w of (Normal, w') \<Rightarrow> unwind ds w' | (st, w') \<Rightarrow> (st, w'))"

record AllocationTransaction =
  at_data :: Pointer
  at_capacity :: SizeType

definition AllocationTransaction_init :: AllocationTransaction where
  "AllocationTransaction_init = \<lparr>at_data = nullptr, at_capacity = 0\<rparr>"

definition DidAllocate :: "AllocationTransaction \<Rightarrow> bool" where
  "DidAllocate tx = (at_data tx \<noteq> nullptr)"

definition Allocate :: "'a Instantiation \<Rightarrow> AllocationTransaction \<Rightarrow> SizeType \<Rightarrow> 'a World
    \<Rightarrow> status \<times> Pointer \<times> AllocationTransaction \<times> 'a World" where
  "Allocate P tx capacity w =
     (case allocate P capacity w of
        (Normal, p, w') \<Rightarrow> (Normal, p, \<lparr>at_data = p, at_capacity = capacity\<rparr>, w')
      | (st, p, w') \<Rightarrow> (st, nullptr, tx, w'))"

definition AllocationTransaction_dtor :: "'a Instantiation \<Rightarrow> AllocationTransaction \<Rightarrow> 'a World
    \<Rightarrow> status \<times> 'a World" where
  "AllocationTransaction_dtor P tx w =
     (if DidAllocate tx then deallocate P (at_data tx) (at_capacity tx) w else (Normal, w))"

record ConstructionTransaction =
  ct_data :: Pointer
  ct_size :: SizeType

definition ConstructionTransaction_init :: ConstructionTransaction where
  "ConstructionTransaction_init = \<lparr>ct_data = nullptr, ct_size = 0\<rparr>"

definition DidConstruct :: "ConstructionTransaction \<Rightarrow> bool" where
  "DidConstruct tx = (ct_data tx \<noteq> nullptr)"

definition Construct_tx :: "'a Instantiation \<Rightarrow> ConstructionTransaction \<Rightarrow> Pointer \<Rightarrow> 'a ValueAdapter
    \<Rightarrow> SizeType \<Rightarrow> 'a World \<Rightarrow> status \<times> 'a ValueAdapter \<times> ConstructionTransaction \<times> 'a World" where
  \<comment> \<open>\<open>ConstructionTransaction::Construct\<close>\<close>
  "Construct_tx P tx dat vals sz w =
     (case ConstructElements P dat vals sz w of
        (Normal, vals', w') \<Rightarrow> (Normal, vals', \<lparr>ct_data = dat, ct_size = sz\<rparr>, w')
      | (st, vals', w') \<Rightarrow> (st, vals', tx, w'))"

definition ConstructionTransaction_dtor :: "'a Instantiation \<Rightarrow> ConstructionTransaction \<Rightarrow> 'a World
    \<Rightarrow> status \<times> 'a World" where
  "ConstructionTransaction_dtor P tx w =
     (if DidConstruct tx then DestroyElements P (ct_data tx) (ct_size tx) w else (Normal, w))"

subsection \<open>\<open>Storage\<close>: accessors and mutators\<close>

definition Storage_init :: "nat \<Rightarrow> 'a Instantiation \<Rightarrow> 'a Storage" where
  \<comment> \<open>\<open>Storage()\<close>: the metadata word is 0; the inline bytes hold no element\<close>
  "Storage_init al P = \<lparr>allocator = al, size_and_is_allocated = 0, data = Inlined (replicate (N P) None)\<rparr>"

definition GetSize :: "'a Storage \<Rightarrow> SizeType" where
  "GetSize s = drop_bit 1 (size_and_is_allocated s)"

definition GetIsAllocated :: "'a Storage \<Rightarrow> bool" where
  "GetIsAllocated s = (size_and_is_allocated s AND 1 \<noteq> 0)"

definition GetAllocatedData :: "'a Storage \<Rightarrow> Pointer" where
  \<comment> \<open>read while the union holds the other member, the bytes are no pointer: \<open>nullptr\<close> here\<close>
  "GetAllocatedData s = (case data s of Allocated p c \<Rightarrow> p | Inlined xs \<Rightarrow> nullptr)"

definition GetAllocatedCapacity :: "'a Storage \<Rightarrow> SizeType" where
  "GetAllocatedCapacity s = (case data s of Allocated p c \<Rightarrow> c | Inlined xs \<Rightarrow> 0)"

definition GetInlinedData :: "nat \<Rightarrow> Pointer" where
  "GetInlinedData this = Ptr (InlinedBuffer this) 0"

definition GetInlinedCapacity :: "'a Instantiation \<Rightarrow> SizeType" where
  "GetInlinedCapacity P = of_nat (N P)"

record StorageView =
  view_data :: Pointer
  view_size :: SizeType
  view_capacity :: SizeType

definition MakeStorageView :: "'a Instantiation \<Rightarrow> nat \<Rightarrow> 'a Storage \<Rightarrow> StorageView" where
  "MakeStorageView P this s =
     (if GetIsAllocated s
      then \<lparr>view_data = GetAllocatedData s, view_size = GetSize s, view_capacity = GetAllocatedCapacity s\<rparr>
      else \<lparr>view_data = GetInlinedData this, view_size = GetSize s, view_capacity = GetInlinedCapacity P\<rparr>)"

definition SetIsAllocated :: "'a Storage \<Rightarrow> 'a Storage" where
  "SetIsAllocated s = s\<lparr>size_and_is_allocated := size_and_is_allocated s OR 1\<rparr>"

definition UnsetIsAllocated :: "'a Storage \<Rightarrow> 'a Storage" where
  "UnsetIsAllocated s = s\<lparr>size_and_is_allocated := size_and_is_allocated s AND (- 1 - 1)\<rparr>"

definition SetSize :: "SizeType \<Rightarrow> 'a Storage \<Rightarrow> 'a Storage" where
  "SetSize sz s =
     s\<lparr>size_and_is_allocated := push_bit 1 sz OR (if GetIsAllocated s then 1 else 0)\<rparr>"

definition SetAllocatedSize :: "SizeType \<Rightarrow> 'a Storage \<Rightarrow> 'a Storage" where
  "SetAllocatedSize sz s = s\<lparr>size_and_is_allocated := push_bit 1 sz OR 1\<rparr>"

definition SetInlinedSize :: "SizeType \<Rightarrow> 'a Storage \<Rightarrow> 'a Storage" where
  "SetInlinedSize sz s = s\<lparr>size_and_is_allocated := push_bit 1 sz\<rparr>"

definition AddSize :: "SizeType \<Rightarrow> 'a Storage \<Rightarrow> 'a Storage" where
  "AddSize count s = s\<lparr>size_and_is_allocated := size_and_is_allocated s + push_bit 1 count\<rparr>"

definition SubtractSize :: "SizeType \<Rightarrow> 'a Storage \<Rightarrow> 'a Storage option" where
  \<comment> \<open>\<open>None\<close> when \<open>assert(count <= GetSize())\<close> fails\<close>
  "SubtractSize count s =
     (if count \<le> GetSize s
      then Some (s\<lparr>size_and_is_allocated := size_and_is_allocated s - push_bit 1 count\<rparr>)
      else None)"

definition SetAllocatedData :: "Pointer \<Rightarrow> SizeType \<Rightarrow> 'a Storage \<Rightarrow> 'a Storage" where
  "SetAllocatedData p capacity s = s\<lparr>data := Allocated p capacity\<rparr>"

definition AcquireAllocatedData :: "AllocationTransaction \<Rightarrow> 'a Storage \<Rightarrow> 'a Storage" where
  \<comment> \<open>the \<open>Reset\<close> of the transaction is the caller not running its destructor afterwards\<close>
  "AcquireAllocatedData allocation_tx s =
     SetAllocatedData (at_data allocation_tx) (at_capacity allocation_tx) s"

definition DeallocateIfAllocated :: "'a Instantiation \<Rightarrow> nat \<Rightarrow> 'a World \<Rightarrow> status \<times> 'a World" where
  "DeallocateIfAllocated P this w =
     (if GetIsAllocated (storages w this)
      then deallocate P (GetAllocatedData (storages w this)) (GetAllocatedCapacity (storages w this)) w
      else (Normal, w))"

definition DestroyContents :: "'a Instantiation \<Rightarrow> nat \<Rightarrow> 'a World \<Rightarrow> status \<times> 'a World" where
  "DestroyContents P this w =
     (let dat = (if GetIsAllocated (storages w this) then GetAllocatedData (storages w this)
                 else GetInlinedData this)
      in case DestroyElements P dat (GetSize (storages w this)) w of
           (Normal, w') \<Rightarrow> DeallocateIfAllocated P this w'
         | (st, w') \<Rightarrow> (st, w'))"

definition Storage_dtor :: "'a Instantiation \<Rightarrow> nat \<Rightarrow> 'a World \<Rightarrow> status \<times> 'a World" where
  \<comment> \<open>\<open>~Storage()\<close>\<close>
  "Storage_dtor P this w =
     (if size_and_is_allocated (storages w this) = 0 then (Normal, w)
      else if IsMemcpyOk P then DeallocateIfAllocated P this w
      else DestroyContents P this w)"

definition distance :: "Pointer \<Rightarrow> Pointer \<Rightarrow> int option" where
  \<comment> \<open>\<open>std::distance\<close> of two pointers; \<open>None\<close> when they point into different buffers\<close>
  "distance p q =
     (case (p, q) of
        (nullptr, nullptr) \<Rightarrow> Some 0
      | (Ptr r i, Ptr r' j) \<Rightarrow> if r = r' then Some (j - i) else None
      | _ \<Rightarrow> None)"

subsection \<open>\<open>Initialize\<close>\<close>

definition Initialize :: "'a Instantiation \<Rightarrow> nat \<Rightarrow> 'a ValueAdapter \<Rightarrow> SizeType \<Rightarrow> 'a World
    \<Rightarrow> status \<times> 'a World" where
  "Initialize P this vals new_size w =
     (if GetIsAllocated (storages w this) \<or> GetSize (storages w this) \<noteq> 0 then (Undefined, w)
      else
        case (if new_size > GetInlinedCapacity P
              then (let new_capacity = ComputeCapacity (GetInlinedCapacity P) new_size
                    in case allocate P new_capacity w of
                         (Normal, construct_data, w1) \<Rightarrow>
                           (Normal, construct_data,
                            upd_storage this (SetIsAllocated \<circ> SetAllocatedData construct_data new_capacity) w1)
                       | (st, construct_data, w1) \<Rightarrow> (st, construct_data, w1))
              else (Normal, GetInlinedData this, w)) of
          (Normal, construct_data, w2) \<Rightarrow>
            (case ConstructElements P construct_data vals new_size w2 of
               (Normal, vals', w3) \<Rightarrow> (Normal, upd_storage this (AddSize new_size) w3)
             | (st, vals', w3) \<Rightarrow> (st, w3))
        | (st, construct_data, w2) \<Rightarrow> (st, w2))"

subsection \<open>\<open>Assign\<close>\<close>

definition Assign :: "'a Instantiation \<Rightarrow> nat \<Rightarrow> 'a ValueAdapter \<Rightarrow> SizeType \<Rightarrow> 'a World
    \<Rightarrow> status \<times> 'a World" where
  "Assign P this vals new_size w =
     (let storage_view = MakeStorageView P this (storages w this);
          empty_span = (nullptr, 0)
      in
      case (if new_size > view_capacity storage_view
            then (let new_capacity = ComputeCapacity (view_capacity storage_view) new_size
                  in case Allocate P AllocationTransaction_init new_capacity w of
                       (st, p, tx, w1) \<Rightarrow>
                         (st, tx, empty_span, (p, new_size),
                          (view_data storage_view, view_size storage_view), w1))
            else if new_size > view_size storage_view
            then (Normal, AllocationTransaction_init,
                  (view_data storage_view, view_size storage_view),
                  (ptr_add (view_data storage_view) (uint (view_size storage_view)),
                   new_size - view_size storage_view),
                  empty_span, w)
            else (Normal, AllocationTransaction_init,
                  (view_data storage_view, new_size),
                  empty_span,
                  (ptr_add (view_data storage_view) (uint new_size), view_size storage_view - new_size),
                  w)) of
        (Normal, allocation_tx, assign_loop, construct_loop, destroy_loop, w1) \<Rightarrow>
          (case AssignElements P (fst assign_loop) vals (snd assign_loop) w1 of
             (Normal, vals1, w2) \<Rightarrow>
               (case ConstructElements P (fst construct_loop) vals1 (snd construct_loop) w2 of
                  (Normal, vals2, w3) \<Rightarrow>
                    (case DestroyElements P (fst destroy_loop) (snd destroy_loop) w3 of
                       (Normal, w4) \<Rightarrow>
                         (if DidAllocate allocation_tx
                          then (case DeallocateIfAllocated P this w4 of
                                  (Normal, w5) \<Rightarrow>
                                    (Normal,
                                     upd_storage this
                                       (SetSize new_size \<circ> SetIsAllocated \<circ> AcquireAllocatedData allocation_tx) w5)
                                | (st, w5) \<Rightarrow> (st, w5))
                          else (Normal, upd_storage this (SetSize new_size) w4))
                     | (st, w4) \<Rightarrow> (st, w4))
                | (Throw, vals2, w3) \<Rightarrow> unwind [AllocationTransaction_dtor P allocation_tx] w3
                | (Undefined, vals2, w3) \<Rightarrow> (Undefined, w3))
           | (Throw, vals1, w2) \<Rightarrow> unwind [AllocationTransaction_dtor P allocation_tx] w2
           | (Undefined, vals1, w2) \<Rightarrow> (Undefined, w2))
      | (st, allocation_tx, assign_loop, construct_loop, destroy_loop, w1) \<Rightarrow> (st, w1))"

subsection \<open>\<open>Resize\<close>\<close>

definition Resize :: "'a Instantiation \<Rightarrow> nat \<Rightarrow> 'a ValueAdapter \<Rightarrow> SizeType \<Rightarrow> 'a World
    \<Rightarrow> status \<times> 'a World" where
  "Resize P this vals new_size w =
     (let storage_view = MakeStorageView P this (storages w this);
          base = view_data storage_view;
          sz = view_size storage_view
      in
      if new_size \<le> sz then
        (case DestroyElements P (ptr_add base (uint new_size)) (sz - new_size) w of
           (Normal, w1) \<Rightarrow> (Normal, upd_storage this (SetSize new_size) w1)
         | (st, w1) \<Rightarrow> (st, w1))
      else if new_size \<le> view_capacity storage_view then
        (case ConstructElements P (ptr_add base (uint sz)) vals (new_size - sz) w of
           (Normal, vals', w1) \<Rightarrow> (Normal, upd_storage this (SetSize new_size) w1)
         | (st, vals', w1) \<Rightarrow> (st, w1))
      else
        (let new_capacity = ComputeCapacity (view_capacity storage_view) new_size
         in case Allocate P AllocationTransaction_init new_capacity w of
              (Normal, new_data, allocation_tx, w1) \<Rightarrow>
                (case Construct_tx P ConstructionTransaction_init (ptr_add new_data (uint sz)) vals
                        (new_size - sz) w1 of
                   (Normal, vals', construction_tx, w2) \<Rightarrow>
                     (case ConstructElements P new_data (MoveValueAdapter base) sz w2 of
                        (Normal, move_values, w3) \<Rightarrow>
                          (case DestroyElements P base sz w3 of
                             (Normal, w4) \<Rightarrow>
                               (case DeallocateIfAllocated P this w4 of
                                  (Normal, w5) \<Rightarrow>
                                    (Normal,
                                     upd_storage this
                                       (SetSize new_size \<circ> SetIsAllocated \<circ> AcquireAllocatedData allocation_tx) w5)
                                | (st, w5) \<Rightarrow> (st, w5))
                           | (st, w4) \<Rightarrow> (st, w4))
                      | (Throw, move_values, w3) \<Rightarrow>
                          unwind [ConstructionTransaction_dtor P construction_tx,
                                  AllocationTransaction_dtor P allocation_tx] w3
                      | (Undefined, move_values, w3) \<Rightarrow> (Undefined, w3))
                 | (Throw, vals', construction_tx, w2) \<Rightarrow>
                     unwind [ConstructionTransaction_dtor P construction_tx,
                             AllocationTransaction_dtor P allocation_tx] w2
                 | (Undefined, vals', construction_tx, w2) \<Rightarrow> (Undefined, w2))
            | (st, new_data, allocation_tx, w1) \<Rightarrow> (st, w1)))"

subsection \<open>\<open>Insert\<close>\<close>

definition Insert_reallocate :: "'a Instantiation \<Rightarrow> nat \<Rightarrow> StorageView \<Rightarrow> 'a ValueAdapter \<Rightarrow> SizeType
    \<Rightarrow> SizeType \<Rightarrow> SizeType \<Rightarrow> SizeType \<Rightarrow> 'a World \<Rightarrow> status \<times> 'a World" where
  \<comment> \<open>the branch \<open>new_size > storage_view.capacity\<close>\<close>
  "Insert_reallocate P this storage_view vals insert_count insert_index insert_end_index new_size w =
     (let move_values = MoveValueAdapter (view_data storage_view);
          new_capacity = ComputeCapacity (view_capacity storage_view) new_size
      in case Allocate P AllocationTransaction_init new_capacity w of
           (Normal, new_data, allocation_tx, w1) \<Rightarrow>
             (case Construct_tx P ConstructionTransaction_init (ptr_add new_data (uint insert_index)) vals
                     insert_count w1 of
                (Normal, vals', construction_tx, w2) \<Rightarrow>
                  (case Construct_tx P ConstructionTransaction_init new_data move_values insert_index w2 of
                     (Normal, move_values', move_construction_tx, w3) \<Rightarrow>
                       (case ConstructElements P (ptr_add new_data (uint insert_end_index)) move_values'
                               (view_size storage_view - insert_index) w3 of
                          (Normal, move_values'', w4) \<Rightarrow>
                            (case DestroyElements P (view_data storage_view) (view_size storage_view) w4 of
                               (Normal, w5) \<Rightarrow>
                                 (case DeallocateIfAllocated P this w5 of
                                    (Normal, w6) \<Rightarrow>
                                      (Normal,
                                       upd_storage this
                                         (SetAllocatedSize new_size \<circ> AcquireAllocatedData allocation_tx) w6)
                                  | (st, w6) \<Rightarrow> (st, w6))
                             | (st, w5) \<Rightarrow> (st, w5))
                        | (Throw, move_values'', w4) \<Rightarrow>
                            unwind [ConstructionTransaction_dtor P move_construction_tx,
                                    ConstructionTransaction_dtor P construction_tx,
                                    AllocationTransaction_dtor P allocation_tx] w4
                        | (Undefined, move_values'', w4) \<Rightarrow> (Undefined, w4))
                   | (Throw, move_values', move_construction_tx, w3) \<Rightarrow>
                       unwind [ConstructionTransaction_dtor P move_construction_tx,
                               ConstructionTransaction_dtor P construction_tx,
                               AllocationTransaction_dtor P allocation_tx] w3
                   | (Undefined, move_values', move_construction_tx, w3) \<Rightarrow> (Undefined, w3))
              | (Throw, vals', construction_tx, w2) \<Rightarrow>
                  unwind [ConstructionTransaction_dtor P ConstructionTransaction_init,
                          ConstructionTransaction_dtor P construction_tx,
                          AllocationTransaction_dtor P allocation_tx] w2
              | (Undefined, vals', construction_tx, w2) \<Rightarrow> (Undefined, w2))
         | (st, new_data, allocation_tx, w1) \<Rightarrow> (st, w1))"

text \<open>
  The backward loop of the in-place branch, on the pointers \<open>destination\<close>,
  \<open>last_destination\<close> and \<open>source\<close>; pointers of one buffer compare by their offsets.
\<close>

fun ptr_offset :: "Pointer \<Rightarrow> int" where
  "ptr_offset nullptr = 0"
| "ptr_offset (Ptr r i) = i"

function move_backward :: "'a Instantiation \<Rightarrow> Pointer \<Rightarrow> Pointer \<Rightarrow> Pointer \<Rightarrow> 'a World
    \<Rightarrow> status \<times> 'a World" where
  "move_backward P destination last_destination source w =
     (if ptr_offset (ptr_add destination (- 1)) < ptr_offset last_destination then (Normal, w)
      else (case assign_move P (ptr_add destination (- 1)) (ptr_add source (- 1)) w of
              (Normal, w') \<Rightarrow>
                move_backward P (ptr_add destination (- 1)) last_destination (ptr_add source (- 1)) w'
            | (st, w') \<Rightarrow> (st, w')))"
  by pat_completeness auto
termination
proof (relation "measure (\<lambda>(P, d, l, s, w). nat (ptr_offset d - ptr_offset l + 1))", goal_cases)
  case 1
  show ?case by simp
next
  case (2 P destination last_destination source w x y)
  have "destination \<noteq> nullptr"
    using 2 by (auto simp: assign_move_def load_def)
  then obtain r i where "destination = Ptr r i"
    by (cases destination) auto
  with 2 show ?case by simp
qed

definition Insert_in_place :: "'a Instantiation \<Rightarrow> nat \<Rightarrow> StorageView \<Rightarrow> 'a ValueAdapter \<Rightarrow> SizeType
    \<Rightarrow> SizeType \<Rightarrow> SizeType \<Rightarrow> SizeType \<Rightarrow> 'a World \<Rightarrow> status \<times> 'a World" where
  \<comment> \<open>the branch \<open>new_size <= storage_view.capacity\<close>; a span is its \<open>data()\<close> and \<open>size()\<close>\<close>
  "Insert_in_place P this storage_view vals insert_count insert_index insert_end_index new_size w =
     (let move_construction_destination_index = max insert_end_index (view_size storage_view);
          move_construction_values =
            MoveValueAdapter (ptr_add (view_data storage_view)
                                (uint (move_construction_destination_index - insert_count)));
          move_construction =
            (ptr_add (view_data storage_view) (uint move_construction_destination_index),
             new_size - move_construction_destination_index);
          move_assignment_values = ptr_add (view_data storage_view) (uint insert_index);
          move_assignment =
            (ptr_add (view_data storage_view) (uint insert_end_index),
             move_construction_destination_index - insert_end_index);
          insert_assignment = (move_assignment_values, snd move_construction);
          insert_construction =
            (ptr_add (fst insert_assignment) (uint (snd insert_assignment)),
             insert_count - snd insert_assignment)
      in case Construct_tx P ConstructionTransaction_init (fst move_construction)
                move_construction_values (snd move_construction) w of
           (Normal, move_construction_values', move_construction_tx, w1) \<Rightarrow>
             (case move_backward P (ptr_add (fst move_assignment) (uint (snd move_assignment)))
                     (fst move_assignment)
                     (ptr_add move_assignment_values (uint (snd move_assignment))) w1 of
                (Normal, w2) \<Rightarrow>
                  (case AssignElements P (fst insert_assignment) vals (snd insert_assignment) w2 of
                     (Normal, vals', w3) \<Rightarrow>
                       (case ConstructElements P (fst insert_construction) vals'
                               (snd insert_construction) w3 of
                          (Normal, vals'', w4) \<Rightarrow> (Normal, upd_storage this (AddSize insert_count) w4)
                        | (Throw, vals'', w4) \<Rightarrow>
                            unwind [ConstructionTransaction_dtor P move_construction_tx] w4
                        | (Undefined, vals'', w4) \<Rightarrow> (Undefined, w4))
                   | (Throw, vals', w3) \<Rightarrow>
                       unwind [ConstructionTransaction_dtor P move_construction_tx] w3
                   | (Undefined, vals', w3) \<Rightarrow> (Undefined, w3))
              | (Throw, w2) \<Rightarrow> unwind [ConstructionTransaction_dtor P move_construction_tx] w2
              | (Undefined, w2) \<Rightarrow> (Undefined, w2))
         | (Throw, move_construction_values', move_construction_tx, w1) \<Rightarrow>
             unwind [ConstructionTransaction_dtor P move_construction_tx] w1
         | (Undefined, move_construction_values', move_construction_tx, w1) \<Rightarrow> (Undefined, w1))"

definition Insert :: "'a Instantiation \<Rightarrow> nat \<Rightarrow> Pointer \<Rightarrow> 'a ValueAdapter \<Rightarrow> SizeType \<Rightarrow> 'a World
    \<Rightarrow> status \<times> 'a World" where
  "Insert P this pos vals insert_count w =
     (let storage_view = MakeStorageView P this (storages w this)
      in case distance (view_data storage_view) pos of
           None \<Rightarrow> (Undefined, w)
         | Some d \<Rightarrow>
             (let insert_index = word_of_int d;
                  insert_end_index = insert_index + insert_count;
                  new_size = view_size storage_view + insert_count
              in if new_size > view_capacity storage_view
                 then Insert_reallocate P this storage_view vals insert_count insert_index
                        insert_end_index new_size w
                 else Insert_in_place P this storage_view vals insert_count insert_index
                        insert_end_index new_size w))"

subsection \<open>\<open>EmplaceBack\<close>\<close>

text \<open>
  The argument \<open>args\<close> is what the constructor call \<open>T(std::forward<Args>(args)...)\<close>
  gives: the new object, or \<open>None\<close> when it throws.
\<close>

definition EmplaceBackSlow :: "'a Instantiation \<Rightarrow> nat \<Rightarrow> 'a option \<Rightarrow> 'a World \<Rightarrow> status \<times> 'a World" where
  "EmplaceBackSlow P this args w =
     (let storage_view = MakeStorageView P this (storages w this);
          move_values = MoveValueAdapter (view_data storage_view);
          new_capacity = NextCapacity (view_capacity storage_view)
      in case Allocate P AllocationTransaction_init new_capacity w of
           (Normal, construct_data, allocation_tx, w1) \<Rightarrow>
             (let last_ptr = ptr_add construct_data (uint (view_size storage_view))
              in case construct_value P last_ptr args w1 of
                   (Normal, w2) \<Rightarrow>
                     (case ConstructElements P (at_data allocation_tx) move_values
                             (view_size storage_view) w2 of
                        (Normal, move_values', w3) \<Rightarrow>
                          (case DestroyElements P (view_data storage_view) (view_size storage_view) w3 of
                             (Normal, w4) \<Rightarrow>
                               (case DeallocateIfAllocated P this w4 of
                                  (Normal, w5) \<Rightarrow>
                                    (Normal,
                                     upd_storage this
                                       (AddSize 1 \<circ> SetIsAllocated \<circ> AcquireAllocatedData allocation_tx) w5)
                                | (st, w5) \<Rightarrow> (st, w5))
                           | (st, w4) \<Rightarrow> (st, w4))
                      | (Throw, move_values', w3) \<Rightarrow>
                          (case destroy P last_ptr w3 of
                             (Normal, w4) \<Rightarrow> unwind [AllocationTransaction_dtor P allocation_tx] w4
                           | (st, w4) \<Rightarrow> (st, w4))
                      | (Undefined, move_values', w3) \<Rightarrow> (Undefined, w3))
                 | (Throw, w2) \<Rightarrow> unwind [AllocationTransaction_dtor P allocation_tx] w2
                 | (Undefined, w2) \<Rightarrow> (Undefined, w2))
         | (st, construct_data, allocation_tx, w1) \<Rightarrow> (st, w1))"

definition EmplaceBack :: "'a Instantiation \<Rightarrow> nat \<Rightarrow> 'a option \<Rightarrow> 'a World \<Rightarrow> status \<times> 'a World" where
  "EmplaceBack P this args w =
     (let storage_view = MakeStorageView P this (storages w this);
          n = view_size storage_view
      in if n \<noteq> view_capacity storage_view
         then (let last_ptr = ptr_add (view_data storage_view) (uint n)
               in case construct_value P last_ptr args w of
                    (Normal, w1) \<Rightarrow> (Normal, upd_storage this (AddSize 1) w1)
                  | (st, w1) \<Rightarrow> (st, w1))
         else EmplaceBackSlow P this args w)"

subsection \<open>\<open>Erase\<close>\<close>

definition Erase :: "'a Instantiation \<Rightarrow> nat \<Rightarrow> Pointer \<Rightarrow> Pointer \<Rightarrow> 'a World \<Rightarrow> status \<times> 'a World" where
  "Erase P this from_it to_it w =
     (let storage_view = MakeStorageView P this (storages w this)
      in case (distance from_it to_it, distance (view_data storage_view) from_it) of
           (Some d1, Some d2) \<Rightarrow>
             (let erase_size = word_of_int d1;
                  erase_index = word_of_int d2;
                  erase_end_index = erase_index + erase_size;
                  move_values = MoveValueAdapter (ptr_add (view_data storage_view) (uint erase_end_index))
              in case AssignElements P (ptr_add (view_data storage_view) (uint erase_index)) move_values
                        (view_size storage_view - erase_end_index) w of
                   (Normal, move_values', w1) \<Rightarrow>
                     (case DestroyElements P
                             (ptr_add (view_data storage_view) (uint (view_size storage_view - erase_size)))
                             erase_size w1 of
                        (Normal, w2) \<Rightarrow>
                          (case SubtractSize erase_size (storages w2 this) of
                             Some s' \<Rightarrow> (Normal, upd_storage this (\<lambda>s. s') w2)
                           | None \<Rightarrow> (Undefined, w2))
                      | (st, w2) \<Rightarrow> (st, w2))
                 | (st, move_values', w1) \<Rightarrow> (st, w1))
         | _ \<Rightarrow> (Undefined, w))"

subsection \<open>\<open>Reserve\<close>\<close>

definition Reserve :: "'a Instantiation \<Rightarrow> nat \<Rightarrow> SizeType \<Rightarrow> 'a World \<Rightarrow> status \<times> 'a World" where
  "Reserve P this requested_capacity w =
     (let storage_view = MakeStorageView P this (storages w this)
      in if requested_capacity \<le> view_capacity storage_view then (Normal, w)
         else
           (let move_values = MoveValueAdapter (view_data storage_view);
                new_capacity = ComputeCapacity (view_capacity storage_view) requested_capacity
            in case Allocate P AllocationTransaction_init new_capacity w of
                 (Normal, new_data, allocation_tx, w1) \<Rightarrow>
                   (case ConstructElements P new_data move_values (view_size storage_view) w1 of
                      (Normal, move_values', w2) \<Rightarrow>
                        (case DestroyElements P (view_data storage_view) (view_size storage_view) w2 of
                           (Normal, w3) \<Rightarrow>
                             (case DeallocateIfAllocated P this w3 of
                                (Normal, w4) \<Rightarrow>
                                  (Normal,
                                   upd_storage this (SetIsAllocated \<circ> AcquireAllocatedData allocation_tx) w4)
                              | (st, w4) \<Rightarrow> (st, w4))
                         | (st, w3) \<Rightarrow> (st, w3))
                    | (Throw, move_values', w2) \<Rightarrow> unwind [AllocationTransaction_dtor P allocation_tx] w2
                    | (Undefined, move_values', w2) \<Rightarrow> (Undefined, w2))
               | (st, new_data, allocation_tx, w1) \<Rightarrow> (st, w1)))"

subsection \<open>\<open>ShrinkToFit\<close>\<close>

definition ShrinkToFit :: "'a Instantiation \<Rightarrow> nat \<Rightarrow> 'a World \<Rightarrow> status \<times> 'a World" where
  "ShrinkToFit P this w =
     (if \<not> GetIsAllocated (storages w this) then (Undefined, w)
      else
        (let storage_view = \<lparr>view_data = GetAllocatedData (storages w this),
                              view_size = GetSize (storages w this),
                              view_capacity = GetAllocatedCapacity (storages w this)\<rparr>
         in if view_size storage_view = view_capacity storage_view then (Normal, w)
            else
              (let move_values = MoveValueAdapter (view_data storage_view)
               in case (if view_size storage_view > GetInlinedCapacity P
                        then (let new_capacity = view_size storage_view
                              in Allocate P AllocationTransaction_init new_capacity w)
                        else (Normal, GetInlinedData this, AllocationTransaction_init, w)) of
                    (Normal, construct_data, allocation_tx, w1) \<Rightarrow>
                      (case ConstructElements P construct_data move_values (view_size storage_view) w1 of
                         (Normal, move_values', w2) \<Rightarrow>
                           (case DestroyElements P (view_data storage_view) (view_size storage_view) w2 of
                              (Normal, w3) \<Rightarrow>
                                (case deallocate P (view_data storage_view) (view_capacity storage_view) w3 of
                                   (Normal, w4) \<Rightarrow>
                                     (Normal,
                                      if DidAllocate allocation_tx
                                      then upd_storage this (AcquireAllocatedData allocation_tx) w4
                                      else upd_storage this UnsetIsAllocated w4)
                                 | (st, w4) \<Rightarrow> (st, w4))
                            | (st, w3) \<Rightarrow> (st, w3))
                       | (Throw, move_values', w2) \<Rightarrow>
                           unwind [AllocationTransaction_dtor P allocation_tx]
                             (upd_storage this
                                (SetAllocatedData (view_data storage_view) (view_capacity storage_view)) w2)
                       | (Undefined, move_values', w2) \<Rightarrow> (Undefined, w2))
                  | (st, construct_data, allocation_tx, w1) \<Rightarrow> (st, w1))))"

subsection \<open>\<open>Swap\<close>\<close>

definition swap_elements :: "'a Instantiation \<Rightarrow> Pointer \<Rightarrow> Pointer \<Rightarrow> 'a World \<Rightarrow> status \<times> 'a World" where
  \<comment> \<open>\<open>std::swap(*p, *q)\<close>: \<open>T tmp(std::move(*p)); *p = std::move(*q); *q = std::move(tmp);\<close>\<close>
  "swap_elements P p q w =
     (case load P w p of
        None \<Rightarrow> (Undefined, w)
      | Some x \<Rightarrow>
          (case move_construct P x of
             None \<Rightarrow> (Throw, w)
           | Some (tmp, left) \<Rightarrow>
               (case store P w p (Some left) of
                  None \<Rightarrow> (Undefined, w)
                | Some w1 \<Rightarrow>
                    (case assign_move P p q w1 of
                       (Normal, w2) \<Rightarrow>
                         (case load P w2 q of
                            None \<Rightarrow> (Undefined, w2)
                          | Some y \<Rightarrow>
                              (case move_assign P y tmp of
                                 None \<Rightarrow> (Throw, w2)
                               | Some (y', tmp') \<Rightarrow>
                                   (case store P w2 q (Some y') of
                                      None \<Rightarrow> (Undefined, w2)
                                    | Some w3 \<Rightarrow> (Normal, w3))))
                     | (st, w2) \<Rightarrow> (st, w2)))))"

fun swap_loop :: "'a Instantiation \<Rightarrow> nat \<Rightarrow> nat \<Rightarrow> nat \<Rightarrow> nat \<Rightarrow> 'a World \<Rightarrow> status \<times> 'a World" where
  "swap_loop P small_ptr large_ptr i 0 w = (Normal, w)"
| "swap_loop P small_ptr large_ptr i (Suc k) w =
     (case swap_elements P (ptr_add (GetInlinedData small_ptr) (int i))
             (ptr_add (GetInlinedData large_ptr) (int i)) w of
        (Normal, w') \<Rightarrow> swap_loop P small_ptr large_ptr (Suc i) k w'
      | (st, w') \<Rightarrow> (st, w'))"

definition Swap_inlined :: "'a Instantiation \<Rightarrow> nat \<Rightarrow> nat \<Rightarrow> 'a World \<Rightarrow> status \<times> 'a World" where
  \<comment> \<open>neither side is allocated; \<open>small_ptr\<close> and \<open>large_ptr\<close> are already in order\<close>
  "Swap_inlined P small_ptr large_ptr w =
     (let small_size = GetSize (storages w small_ptr);
          large_size = GetSize (storages w large_ptr)
      in case swap_loop P small_ptr large_ptr 0 (unat small_size) w of
           (Normal, w1) \<Rightarrow>
             (let move_values =
                    MoveValueAdapter (ptr_add (GetInlinedData large_ptr) (uint small_size))
              in case ConstructElements P (ptr_add (GetInlinedData small_ptr) (uint small_size))
                        move_values (large_size - small_size) w1 of
                   (Normal, move_values', w2) \<Rightarrow>
                     DestroyElements P (ptr_add (GetInlinedData large_ptr) (uint small_size))
                       (large_size - small_size) w2
                 | (st, move_values', w2) \<Rightarrow> (st, w2))
         | (st, w1) \<Rightarrow> (st, w1))"

definition Swap_mixed :: "'a Instantiation \<Rightarrow> nat \<Rightarrow> nat \<Rightarrow> 'a World \<Rightarrow> status \<times> 'a World" where
  \<comment> \<open>exactly one side is allocated, and \<open>allocated_ptr\<close> is that side\<close>
  "Swap_mixed P allocated_ptr inlined_ptr w =
     (let allocated_storage_view =
            \<lparr>view_data = GetAllocatedData (storages w allocated_ptr),
             view_size = GetSize (storages w allocated_ptr),
             view_capacity = GetAllocatedCapacity (storages w allocated_ptr)\<rparr>;
          move_values = MoveValueAdapter (GetInlinedData inlined_ptr)
      in case ConstructElements P (GetInlinedData allocated_ptr) move_values
                (GetSize (storages w inlined_ptr)) w of
           (Normal, move_values', w1) \<Rightarrow>
             (case DestroyElements P (GetInlinedData inlined_ptr) (GetSize (storages w1 inlined_ptr)) w1 of
                (Normal, w2) \<Rightarrow>
                  (Normal,
                   upd_storage inlined_ptr
                     (SetAllocatedData (view_data allocated_storage_view)
                        (view_capacity allocated_storage_view)) w2)
              | (st, w2) \<Rightarrow> (st, w2))
         | (Throw, move_values', w1) \<Rightarrow>
             (Throw,
              upd_storage allocated_ptr
                (SetAllocatedData (view_data allocated_storage_view)
                   (view_capacity allocated_storage_view)) w1)
         | (Undefined, move_values', w1) \<Rightarrow> (Undefined, w1))"

definition swap_allocated :: "nat \<Rightarrow> nat \<Rightarrow> 'a World \<Rightarrow> 'a World" where
  \<comment> \<open>\<open>swap(data_.allocated, other_storage_ptr->data_.allocated)\<close>\<close>
  "swap_allocated this other w =
     w\<lparr>storages := (storages w)
        (this := (storages w this)\<lparr>data := Allocated (GetAllocatedData (storages w other))
                                                    (GetAllocatedCapacity (storages w other))\<rparr>,
         other := (storages w other)\<lparr>data := Allocated (GetAllocatedData (storages w this))
                                                      (GetAllocatedCapacity (storages w this))\<rparr>)\<rparr>"

definition swap_metadata :: "nat \<Rightarrow> nat \<Rightarrow> 'a World \<Rightarrow> 'a World" where
  \<comment> \<open>\<open>swap(GetSizeAndIsAllocated(), ...); swap(GetAllocator(), ...)\<close>\<close>
  "swap_metadata this other w =
     w\<lparr>storages := (storages w)
        (this := (storages w this)\<lparr>size_and_is_allocated := size_and_is_allocated (storages w other),
                                   allocator := allocator (storages w other)\<rparr>,
         other := (storages w other)\<lparr>size_and_is_allocated := size_and_is_allocated (storages w this),
                                     allocator := allocator (storages w this)\<rparr>)\<rparr>"

definition Swap :: "'a Instantiation \<Rightarrow> nat \<Rightarrow> nat \<Rightarrow> 'a World \<Rightarrow> status \<times> 'a World" where
  "Swap P this other_storage_ptr w =
     (if this = other_storage_ptr then (Undefined, w)
      else
        case (if GetIsAllocated (storages w this) \<and> GetIsAllocated (storages w other_storage_ptr)
              then (Normal, swap_allocated this other_storage_ptr w)
              else if \<not> GetIsAllocated (storages w this) \<and> \<not> GetIsAllocated (storages w other_storage_ptr)
              then (if GetSize (storages w this) > GetSize (storages w other_storage_ptr)
                    then Swap_inlined P other_storage_ptr this w
                    else Swap_inlined P this other_storage_ptr w)
              else (if \<not> GetIsAllocated (storages w this)
                    then Swap_mixed P other_storage_ptr this w
                    else Swap_mixed P this other_storage_ptr w)) of
          (Normal, w1) \<Rightarrow> (Normal, swap_metadata this other_storage_ptr w1)
        | (st, w1) \<Rightarrow> (st, w1))"

subsection \<open>Notions used in the statements\<close>

definition log_events :: "event list \<Rightarrow> 'a World \<Rightarrow> 'a World" where
  "log_events es w = w\<lparr>trace := trace w @ es\<rparr>"

definition external :: "'a ValueAdapter \<Rightarrow> bool" where
  \<comment> \<open>the value sources of a caller: a range outside the store, one value, or default construction\<close>
  "external vals = (case vals of MoveValueAdapter p \<Rightarrow> False | _ \<Rightarrow> True)"

definition fill :: "'b list \<Rightarrow> nat \<Rightarrow> 'b list \<Rightarrow> 'b list" where
  \<comment> \<open>the list \<open>xs\<close> with \<open>ys\<close> written over it from index \<open>d\<close>\<close>
  "fill xs d ys = take d xs @ ys @ drop (d + length ys) xs"

definition stable :: "'a World \<Rightarrow> region \<Rightarrow> bool" where
  \<comment> \<open>an inline buffer whose union holds the \<open>Inlined\<close> member, or a heap block\<close>
  "stable w r =
     (case r of
        InlinedBuffer j \<Rightarrow> (case data (storages w j) of Inlined xs \<Rightarrow> True | Allocated p c \<Rightarrow> False)
      | HeapBlock a \<Rightarrow> True)"

definition written :: "nat \<Rightarrow> 'a World \<Rightarrow> region \<Rightarrow> 'a option list \<Rightarrow> 'a World" where
  \<comment> \<open>the store after \<open>n\<close> writes into the buffer \<open>r\<close> that leave it holding \<open>xs\<close>\<close>
  "written n w r xs = (if n = 0 then w else put_buffer w r xs)"

definition fresh_world :: "'a Instantiation \<Rightarrow> 'a World" where
  \<comment> \<open>every \<open>Storage\<close> object freshly constructed, nothing allocated\<close>
  "fresh_world P = \<lparr>storages = (\<lambda>i. Storage_init 0 P), heap = Map.empty, next_block = 0, trace = []\<rparr>"

definition example_instance :: "nat Instantiation" where
  \<comment> \<open>an element type holding a number: copying or moving the value 13 throws, and a move
      leaves 0 in its source (so an object moved onto itself holds 0); inline capacity 2\<close>
  "example_instance =
     \<lparr>N = 2,
      copy_construct = (\<lambda>v. if v = 13 then None else Some v),
      move_construct = (\<lambda>v. if v = 13 then None else Some (v, 0)),
      default_construct = Some 0,
      copy_assign = (\<lambda>old v. Some v),
      move_assign = (\<lambda>old v. Some (v, 0)),
      self_move_assign = (\<lambda>v. Some 0),
      max_size = 1000,
      IsMemcpyOk = False\<rparr>"

definition extends :: "'a World \<Rightarrow> 'a World \<Rightarrow> bool" where
  \<comment> \<open>the trace of the second store continues the trace of the first\<close>
  "extends w w' = (\<exists>es. trace w' = trace w @ es)"

definition full_inline_world :: "nat World" where
  \<comment> \<open>the \<open>Storage\<close> 0 holds 1, 2 inline: its size equals its capacity\<close>
  "full_inline_world =
     snd (Initialize example_instance 0 (IteratorValueAdapter [1, 2]) 2 (fresh_world example_instance))"

definition moved_to :: "'a Instantiation \<Rightarrow> 'a \<Rightarrow> 'a" where
  \<comment> \<open>the object a successful move construction from \<open>v\<close> creates\<close>
  "moved_to P v = fst (the (move_construct P v))"

definition moved_from :: "'a Instantiation \<Rightarrow> 'a \<Rightarrow> 'a" where
  \<comment> \<open>what a successful move construction from \<open>v\<close> leaves in its source\<close>
  "moved_from P v = snd (the (move_construct P v))"

definition sane :: "'a Instantiation \<Rightarrow> bool" where
  \<comment> \<open>the inline capacity is positive, and neither it nor any block the allocator grants
      reaches \<open>2^63\<close> elements (the packed word keeps 63 bits for the size)\<close>
  "sane P = (0 < N P \<and> N P < 2 ^ 63 \<and> max_size P < 2 ^ 63)"

definition live_prefix :: "'a option list \<Rightarrow> nat \<Rightarrow> bool" where
  \<comment> \<open>exactly the first \<open>n\<close> slots hold a live element\<close>
  "live_prefix xs n =
     (n \<le> length xs \<and> list_all (\<lambda>x. x \<noteq> None) (take n xs) \<and> list_all (\<lambda>x. x = None) (drop n xs))"

definition wf :: "'a Instantiation \<Rightarrow> 'a World \<Rightarrow> nat \<Rightarrow> bool" where
  \<comment> \<open>the invariants of the \<open>Storage\<close> object \<open>this\<close>: an allocated \<open>Storage\<close> holds the
      \<open>Allocated\<close> member of the union and owns a live block of its capacity, which exceeds
      \<open>N\<close> and is one the allocator grants; the slots of its buffer below the size, and only
      they, hold a live element\<close>
  "wf P w this =
     (let s = storages w this in
      if GetIsAllocated s
      then (case data s of
              Allocated p c \<Rightarrow>
                N P < unat c \<and> unat c \<le> max_size P \<and>
                (case p of
                   Ptr (HeapBlock a) i \<Rightarrow>
                     i = 0 \<and> (case heap w a of
                                Some xs \<Rightarrow> length xs = unat c \<and> live_prefix xs (unat (GetSize s))
                              | None \<Rightarrow> False)
                 | _ \<Rightarrow> False)
            | Inlined xs \<Rightarrow> False)
      else (case get_buffer P w (InlinedBuffer this) of
              Some xs \<Rightarrow> length xs = N P \<and> live_prefix xs (unat (GetSize s))
            | None \<Rightarrow> False))"

definition stale :: "'a World \<Rightarrow> nat \<Rightarrow> bool" where
  \<comment> \<open>the \<open>Storage\<close> is not allocated, and nothing was written in its inline buffer since it
      held a pointer and a capacity\<close>
  "stale w this =
     (\<not> GetIsAllocated (storages w this) \<and>
      (case data (storages w this) of Allocated p c \<Rightarrow> True | Inlined xs \<Rightarrow> False))"

definition data_region :: "nat \<Rightarrow> 'a Storage \<Rightarrow> region option" where
  \<comment> \<open>the buffer that \<open>MakeStorageView\<close> points to\<close>
  "data_region this s =
     (if GetIsAllocated s
      then (case GetAllocatedData s of
              Ptr (HeapBlock a) i \<Rightarrow> if i = 0 then Some (HeapBlock a) else None
            | _ \<Rightarrow> None)
      else Some (InlinedBuffer this))"

definition elements :: "'a Instantiation \<Rightarrow> 'a World \<Rightarrow> nat \<Rightarrow> 'a list" where
  \<comment> \<open>the sequence the \<open>Storage\<close> object \<open>this\<close> holds\<close>
  "elements P w this =
     (case data_region this (storages w this) of
        None \<Rightarrow> []
      | Some r \<Rightarrow>
          (case get_buffer P w r of
             None \<Rightarrow> []
           | Some xs \<Rightarrow> map the (take (unat (GetSize (storages w this))) xs)))"

definition unlucky_world :: "nat World" where
  \<comment> \<open>the \<open>Storage\<close> 0 holds 1, 13 inline: it is full, and moving its second element throws\<close>
  "unlucky_world =
     snd (EmplaceBack example_instance 0 (Some 13)
            (snd (Initialize example_instance 0 (IteratorValueAdapter [1]) 1 (fresh_world example_instance))))"

definition allocated_world :: "nat World" where
  \<comment> \<open>the \<open>Storage\<close> 0 holds 1, 2, 3 in a heap block of capacity 4\<close>
  "allocated_world = snd (EmplaceBack example_instance 0 (Some 3) full_inline_world)"

definition erased_world :: "nat World" where
  \<comment> \<open>the \<open>Storage\<close> 0 holds 1 in a heap block of capacity 4\<close>
  "erased_world =
     snd (Erase example_instance 0 (Ptr (HeapBlock 0) 1) (Ptr (HeapBlock 0) 3) allocated_world)"

definition faithful_moves :: "'a Instantiation \<Rightarrow> bool" where
  \<comment> \<open>move construction and move assignment give their destination the value of their source\<close>
  "faithful_moves P =
     ((\<forall>u v l. move_construct P u = Some (v, l) \<longrightarrow> v = u) \<and>
      (\<forall>old u v l. move_assign P old u = Some (v, l) \<longrightarrow> v = u))"

definition pair_world :: "nat World" where
  \<comment> \<open>the \<open>Storage\<close> 0 holds 1, 2, 3 in a heap block, the \<open>Storage\<close> 1 holds 7 inline\<close>
  "pair_world = snd (Initialize example_instance 1 (IteratorValueAdapter [7]) 1 allocated_world)"

definition follows :: "'a Instantiation \<Rightarrow> region \<Rightarrow> 'a World \<Rightarrow> 'a World \<Rightarrow> bool" where
  \<comment> \<open>what no write into a buffer changes: the blocks that are live, the length of every
      buffer, the metadata of every \<open>Storage\<close>; and the \<open>Allocated\<close> member of a union, when
      the elements constructed were constructed in the buffer \<open>rd\<close>\<close>
  "follows P rd w w' =
     (next_block w' = next_block w \<and> dom (heap w') = dom (heap w) \<and>
      (\<forall>r. map_option length (get_buffer P w' r) = map_option length (get_buffer P w r)) \<and>
      (\<forall>i. size_and_is_allocated (storages w' i) = size_and_is_allocated (storages w i) \<and>
           allocator (storages w' i) = allocator (storages w i)) \<and>
      (\<forall>i a c. rd \<noteq> InlinedBuffer i \<longrightarrow> data (storages w i) = Allocated a c
           \<longrightarrow> data (storages w' i) = Allocated a c))"

definition source_region :: "'a ValueAdapter \<Rightarrow> region option" where
  \<comment> \<open>the buffer of the store a value source moves from, if any\<close>
  "source_region vals =
     (case vals of
        MoveValueAdapter q \<Rightarrow> (case q of Ptr r i \<Rightarrow> Some r | nullptr \<Rightarrow> None)
      | _ \<Rightarrow> None)"

definition buffer_of :: "'a Instantiation \<Rightarrow> 'a World \<Rightarrow> nat \<Rightarrow> region \<Rightarrow> SizeType \<Rightarrow> bool" where
  \<comment> \<open>the \<open>Storage\<close> object \<open>this\<close> keeps its elements in the buffer \<open>r\<close>, of capacity \<open>c\<close>\<close>
  "buffer_of P w this r c =
     (case r of
        HeapBlock a \<Rightarrow>
          GetIsAllocated (storages w this) \<and> data (storages w this) = Allocated (Ptr (HeapBlock a) 0) c \<and>
          N P < unat c \<and> unat c \<le> max_size P
      | InlinedBuffer i \<Rightarrow> i = this \<and> \<not> GetIsAllocated (storages w this) \<and> unat c = N P)"

section \<open>Properties\<close>

subsection \<open>The capacity policy\<close>

lemma unat_max_SizeType: "unat (max a b) = max (unat a) (unat (b::SizeType))"
  by (simp add: max_def word_le_nat_alt)

lemma ComputeCapacity_eq:
  "ComputeCapacity c r = max (c * 2) r \<and> r \<le> ComputeCapacity c r \<and>
   (unat c * 2 < 2 ^ 64 \<longrightarrow> unat (ComputeCapacity c r) = max (unat c * 2) (unat r))"
proof -
  have "unat c * 2 < 2 ^ 64 \<Longrightarrow> unat (c * 2) = unat c * 2"
    by (simp add: unat_word_ariths)
  then show ?thesis
    by (simp add: ComputeCapacity_def NextCapacity_def unat_max_SizeType)
qed

subsection \<open>Lists and offsets\<close>

lemma nat_int_plus [simp]: "nat (int a + int b) = a + b"
  by (simp add: nat_add_distrib)

lemma nat_int_plus_1 [simp]: "nat (int a + 1) = Suc a"
  by (simp add: nat_add_distrib)



lemma fill_Nil [simp]: "fill xs d [] = xs"
  by (simp add: fill_def)

lemma length_fill [simp]: "d + length ys \<le> length xs \<Longrightarrow> length (fill xs d ys) = length xs"
  by (simp add: fill_def)

lemma list_update_eq_fill: "d < length xs \<Longrightarrow> xs[d := y] = fill xs d [y]"
  by (simp add: fill_def upd_conv_take_nth_drop)

lemma fill_fill: "d + length ys + length zs \<le> length xs \<Longrightarrow>
  fill (fill xs d ys) (d + length ys) zs = fill xs d (ys @ zs)"
  by (simp add: fill_def add.assoc add.commute add.left_commute)

lemma fill_update_Cons: "d + length ys < length xs \<Longrightarrow>
  fill (xs[d := y]) (Suc d) ys = fill xs d (y # ys)"
  using fill_fill[of d "[y]" ys xs] by (simp add: list_update_eq_fill)

lemma nth_fill: "d + length ys \<le> length xs \<Longrightarrow> j < length xs \<Longrightarrow>
  fill xs d ys ! j = (if d \<le> j \<and> j < d + length ys then ys ! (j - d) else xs ! j)"
  by (auto simp: fill_def nth_append min_def)

subsection \<open>The store\<close>

lemma log_event_eq: "log_event e w = log_events [e] w"
  by (simp add: log_event_def log_events_def)

lemma log_events_fields [simp]:
  "storages (log_events es w) = storages w"
  "heap (log_events es w) = heap w"
  "next_block (log_events es w) = next_block w"
  "trace (log_events es w) = trace w @ es"
  by (simp_all add: log_events_def)

lemma log_events_log_events [simp]: "log_events es (log_events es' w) = log_events (es' @ es) w"
  by (simp add: log_events_def)

lemma log_events_Nil [simp]: "log_events [] w = w"
  by (simp add: log_events_def)

lemma put_buffer_log_events [simp]: "put_buffer (log_events es w) r xs = log_events es (put_buffer w r xs)"
  by (cases r) (simp_all add: log_events_def upd_storage_def)

lemma upd_storage_log_events [simp]: "upd_storage i f (log_events es w) = log_events es (upd_storage i f w)"
  by (simp add: log_events_def upd_storage_def)

lemma get_buffer_log_events [simp]: "get_buffer P (log_events es w) r = get_buffer P w r"
  by (cases r) simp_all

lemma load_log_events [simp]: "load P (log_events es w) p = load P w p"
  by (simp add: load_def split: Pointer.splits)

lemma store_log_events [simp]: "store P (log_events es w) p x = map_option (log_events es) (store P w p x)"
  by (simp add: store_def split: Pointer.splits option.splits)

lemma get_buffer_put_buffer [simp]:
  "get_buffer P (put_buffer w r xs) r' = (if r' = r then Some xs else get_buffer P w r')"
  by (cases r; cases r') (auto simp: upd_storage_def)

lemma put_buffer_put_buffer [simp]: "put_buffer (put_buffer w r xs) r ys = put_buffer w r ys"
  by (cases r) (simp_all add: upd_storage_def)

lemma Storage_data_same: "data s = d \<Longrightarrow> s\<lparr>data := d\<rparr> = s"
  by (cases s) simp

lemma World_heap_same: "heap w = h \<Longrightarrow> w\<lparr>heap := h\<rparr> = w"
  by (cases w) simp

lemma World_storages_same: "storages w = h \<Longrightarrow> w\<lparr>storages := h\<rparr> = w"
  by (cases w) simp

lemma put_buffer_same: "get_buffer P w r = Some xs \<Longrightarrow> stable w r \<Longrightarrow> put_buffer w r xs = w"
  by (cases r)
     (auto simp: stable_def upd_storage_def Storage_data_same map_upd_triv
           intro!: World_heap_same World_storages_same split: Data.splits)

lemma stable_put_buffer [simp]: "stable (put_buffer w r xs) r' = (r' = r \<or> stable w r')"
  by (cases r; cases r') (auto simp: stable_def upd_storage_def)

lemma stable_log_events [simp]: "stable (log_events es w) r = stable w r"
  by (simp add: stable_def split: region.splits)

lemma put_buffer_fields [simp]:
  "next_block (put_buffer w r xs) = next_block w"
  "trace (put_buffer w r xs) = trace w"
  "size_and_is_allocated (storages (put_buffer w r xs) j) = size_and_is_allocated (storages w j)"
  "allocator (storages (put_buffer w r xs) j) = allocator (storages w j)"
  by (cases r; simp add: upd_storage_def)+

lemma data_put_buffer:
  "data (storages (put_buffer w r xs) j) = (if r = InlinedBuffer j then Inlined xs else data (storages w j))"
  by (cases r) (auto simp: upd_storage_def)

lemma heap_put_buffer:
  "heap (put_buffer w r xs) = (case r of HeapBlock a \<Rightarrow> (heap w)(a \<mapsto> xs) | InlinedBuffer j \<Rightarrow> heap w)"
  by (cases r) (auto simp: upd_storage_def)

lemma storeD:
  assumes "store P w p x = Some w'"
  obtains r i xs where "p = Ptr r (int i)" "get_buffer P w r = Some xs" "i < length xs"
    "w' = put_buffer w r (xs[i := x])"
proof -
  from assms obtain r k xs where p: "p = Ptr r k" and g: "get_buffer P w r = Some xs"
    and k: "0 \<le> k" "nat k < length xs" and w': "w' = put_buffer w r (xs[nat k := x])"
    by (auto simp: store_def split: Pointer.splits option.splits if_splits)
  from k have "k = int (nat k)" by simp
  with p g k w' that show thesis by metis
qed

lemma load_Ptr: "get_buffer P w r = Some xs \<Longrightarrow>
  load P w (Ptr r i) = (if 0 \<le> i \<and> nat i < length xs then xs ! nat i else None)"
  by (simp add: load_def)

lemma store_Ptr: "get_buffer P w r = Some xs \<Longrightarrow>
  store P w (Ptr r i) x = (if 0 \<le> i \<and> nat i < length xs then Some (put_buffer w r (xs[nat i := x])) else None)"
  by (simp add: store_def)

lemma loadD:
  assumes "load P w p = Some v"
  obtains r i xs where "p = Ptr r (int i)" "get_buffer P w r = Some xs" "i < length xs" "xs ! i = Some v"
proof -
  from assms obtain r k xs where p: "p = Ptr r k" and g: "get_buffer P w r = Some xs"
    and k: "0 \<le> k" "nat k < length xs" and v: "xs ! nat k = Some v"
    by (auto simp: load_def split: Pointer.splits option.splits if_splits)
  from k have "k = int (nat k)" by simp
  with p g k v that show thesis by metis
qed


lemma fill_eqI:
  assumes "length zs = length xs" "d + length ys \<le> length xs"
      and "\<And>j. j < length xs \<Longrightarrow> zs ! j = (if d \<le> j \<and> j < d + length ys then ys ! (j - d) else xs ! j)"
  shows "zs = fill xs d ys"
  using assms by (intro nth_equalityI) (simp_all add: nth_fill)

lemma fill_snoc_update: "d + length ys < length xs \<Longrightarrow>
  fill (xs[d + length ys := y]) d ys = fill xs d (ys @ [y])"
  by (rule fill_eqI) (auto simp: nth_fill nth_append nth_list_update)

lemma fill_fill_cover: "d \<le> d' \<Longrightarrow> d' + length ys' \<le> d + length ys \<Longrightarrow> d + length ys \<le> length xs \<Longrightarrow>
  fill (fill xs d' ys') d ys = fill xs d ys"
  by (rule fill_eqI) (auto simp: nth_fill)

subsection \<open>written\<close>

lemma written_0 [simp]: "written 0 w r xs = w"
  by (simp add: written_def)

lemma written_Suc [simp]: "written (Suc n) w r xs = put_buffer w r xs"
  by (simp add: written_def)

lemma get_buffer_written:
  "get_buffer P (written n w r xs) r' = (if r' = r \<and> n \<noteq> 0 then Some xs else get_buffer P w r')"
  by (simp add: written_def)

lemma written_log_events [simp]: "written n (log_events es w) r xs = log_events es (written n w r xs)"
  by (simp add: written_def)

lemma written_stable: "stable w r \<Longrightarrow> get_buffer P w r = Some xs \<Longrightarrow> (n = 0 \<Longrightarrow> ys = xs) \<Longrightarrow>
  written n w r ys = put_buffer w r ys"
  by (auto simp: written_def put_buffer_same)

lemma written_fields [simp]:
  "next_block (written n w r xs) = next_block w"
  "trace (written n w r xs) = trace w"
  "size_and_is_allocated (storages (written n w r xs) j) = size_and_is_allocated (storages w j)"
  "allocator (storages (written n w r xs) j) = allocator (storages w j)"
  by (simp_all add: written_def)

subsection \<open>The primitives\<close>

lemma destroy_Ptr: "get_buffer P w r = Some xs \<Longrightarrow>
  destroy P (Ptr r i) w =
    (if 0 \<le> i \<and> nat i < length xs \<and> xs ! nat i \<noteq> None
     then (Normal, log_events [DestroyCall (Ptr r i)] (put_buffer w r (xs[nat i := None])))
     else (Undefined, w))"
  by (auto simp: destroy_def load_Ptr store_Ptr log_event_eq split: option.splits)

lemma destroy_not_Throw: "fst (destroy P p w) \<noteq> Throw"
  by (simp add: destroy_def split: option.splits)

lemma construct_value_Ptr: "get_buffer P w r = Some xs \<Longrightarrow>
  construct_value P (Ptr r i) outcome w =
    (case outcome of None \<Rightarrow> (Throw, w)
     | Some v \<Rightarrow> if 0 \<le> i \<and> nat i < length xs
        then (Normal, log_events [ConstructCall (Ptr r i)] (put_buffer w r (xs[nat i := Some v])))
        else (Undefined, w))"
  by (auto simp: construct_value_def store_Ptr log_event_eq split: option.splits)

lemma DestroyElements_loop_Normal:
  assumes "get_buffer P w r = Some xs"
      and "DestroyElements_loop P (Ptr r (int d)) n w = (Normal, w')"
  shows "(\<forall>j<n. d + j < length xs \<and> xs ! (d + j) \<noteq> None) \<and>
         w' = log_events (map (\<lambda>j. DestroyCall (Ptr r (int d + int j))) (rev [0..<n]))
                (written n w r (fill xs d (replicate n None)))"
  using assms
proof (induction n arbitrary: w xs)
  case 0
  then show ?case by simp
next
  case (Suc n)
  let ?w1 = "log_events [DestroyCall (Ptr r (int d + int n))] (put_buffer w r (xs[d + n := None]))"
  from Suc.prems have ok: "d + n < length xs" "xs ! (d + n) \<noteq> None"
    and rest: "DestroyElements_loop P (Ptr r (int d)) n ?w1 = (Normal, w')"
    by (auto simp: destroy_Ptr split: if_splits)
  have g1: "get_buffer P ?w1 r = Some (xs[d + n := None])" by simp
  note IH = Suc.IH [OF g1 rest]
  have nth: "\<forall>j<Suc n. d + j < length xs \<and> xs ! (d + j) \<noteq> None"
  proof (intro allI impI)
    fix j assume "j < Suc n"
    show "d + j < length xs \<and> xs ! (d + j) \<noteq> None"
    proof (cases "j = n")
      case True with ok show ?thesis by simp
    next
      case False
      with \<open>j < Suc n\<close> have "j < n" by simp
      with IH have "d + j < length xs \<and> xs[d + n := None] ! (d + j) \<noteq> None" by simp
      with \<open>j < n\<close> show ?thesis by simp
    qed
  qed
  have f: "fill (xs[d + n := None]) d (replicate n None) = fill xs d (replicate (Suc n) None)"
    using fill_snoc_update [of d "replicate n None" xs None] ok
    by (simp add: replicate_append_same)
  have "written n (put_buffer w r (xs[d + n := None])) r (fill (xs[d + n := None]) d (replicate n None))
        = put_buffer w r (fill xs d (replicate (Suc n) None))"
  proof (cases n)
    case 0
    with ok show ?thesis by (simp add: list_update_eq_fill)
  next
    case (Suc m)
    with f show ?thesis by simp
  qed
  with IH ok nth show ?case by simp
qed

lemma DestroyElements_loop_not_Throw: "fst (DestroyElements_loop P p n w) \<noteq> Throw"
proof (induction n arbitrary: w)
  case 0 show ?case by simp
next
  case (Suc n)
  show ?case
    using destroy_not_Throw [of P "ptr_add p (int n)" w] Suc
    by (auto split: prod.splits status.splits)
qed


lemma unat_of_nat_SizeType: "i < 2 ^ 64 \<Longrightarrow> unat (of_nat i :: SizeType) = i"
  by (simp add: unat_of_nat)

lemma DestroyElements_Ptr [simp]:
  "DestroyElements P (Ptr r d) n w = DestroyElements_loop P (Ptr r d) (unat n) w"
  by (simp add: DestroyElements_def)

lemma DestroyElements_not_Throw: "fst (DestroyElements P p n w) \<noteq> Throw"
  using DestroyElements_loop_not_Throw [of P p "unat n" w] by (simp add: DestroyElements_def)

subsection \<open>\<open>ConstructElements\<close> from a value source of the caller\<close>

lemma ConstructNext_external:
  assumes "external vals" and "ConstructNext P vals p w = (st, vals', w')"
  shows "(st = Normal \<and> external vals' \<and> (\<exists>v. construct_value P p (Some v) w = (Normal, w')))
       \<or> (st = Throw \<and> vals' = vals \<and> w' = w)
       \<or> st = Undefined"
proof (cases vals)
  case (IteratorValueAdapter it)
  with assms show ?thesis
    by (cases it; cases "copy_construct P (hd it)"; cases st)
       (auto simp: external_def construct_value_def split: option.splits prod.splits status.splits)
next
  case (MoveValueAdapter q)
  with assms show ?thesis by (simp add: external_def)
next
  case (CopyValueAdapter v)
  with assms show ?thesis
    by (cases "copy_construct P v"; cases st)
       (auto simp: external_def construct_value_def split: option.splits prod.splits status.splits)
next
  case DefaultValueAdapter
  with assms show ?thesis
    by (cases "default_construct P"; cases st)
       (auto simp: external_def construct_value_def split: option.splits prod.splits status.splits)
qed

lemma upt_Cons_map: "map f [i..<i + Suc k] = f i # map f [Suc i..<Suc i + k]"
  by (simp add: upt_conv_Cons del: upt_Suc)

lemma ConstructElements_loop_external_Normal:
  assumes "external vals" and "get_buffer P w r = Some xs"
      and "ConstructElements_loop P (Ptr r (int d)) vals i k w = (Normal, vals', w')"
  shows "(0 < k \<longrightarrow> d + i + k \<le> length xs) \<and> external vals' \<and>
         (\<exists>vs. length vs = k \<and>
            w' = log_events (map (\<lambda>j. ConstructCall (Ptr r (int d + int j))) [i..<i + k])
                   (written k w r (fill xs (d + i) (map Some vs))))"
  using assms
proof (induction k arbitrary: vals i w xs)
  case 0
  then show ?case by simp
next
  case (Suc k)
  obtain st vals1 w1 where nxt: "ConstructNext P vals (Ptr r (int d + int i)) w = (st, vals1, w1)"
    by (metis prod_cases3)
  with Suc.prems(3) have st: "st = Normal"
    and rest: "ConstructElements_loop P (Ptr r (int d)) vals1 (Suc i) k w1 = (Normal, vals', w')"
    by (auto split: status.splits prod.splits simp: DestroyElements_def)
  from ConstructNext_external [OF Suc.prems(1) nxt] st obtain v
    where ext1: "external vals1"
      and cv: "construct_value P (Ptr r (int d + int i)) (Some v) w = (Normal, w1)"
    by auto
  from cv Suc.prems(2) have bound: "d + i < length xs"
    and w1: "w1 = log_events [ConstructCall (Ptr r (int d + int i))] (put_buffer w r (xs[d + i := Some v]))"
    by (auto simp: construct_value_Ptr split: if_splits)
  have g1: "get_buffer P w1 r = Some (xs[d + i := Some v])"
    by (simp add: w1)
  from Suc.IH [OF ext1 g1 rest] obtain vs
    where b: "0 < k \<longrightarrow> d + Suc i + k \<le> length xs" and ext': "external vals'"
      and len: "length vs = k"
      and w': "w' = log_events (map (\<lambda>j. ConstructCall (Ptr r (int d + int j))) [Suc i..<Suc i + k])
                     (written k w1 r (fill (xs[d + i := Some v]) (d + Suc i) (map Some vs)))"
    by auto
  have wr: "written k (put_buffer w r (xs[d + i := Some v])) r (fill (xs[d + i := Some v]) (d + Suc i) (map Some vs))
            = put_buffer w r (fill xs (d + i) (map Some (v # vs)))"
  proof (cases k)
    case 0
    with len bound show ?thesis by (simp add: list_update_eq_fill)
  next
    case (Suc m)
    with b len have "d + i + length (map Some vs) < length xs" by simp
    from fill_update_Cons [OF this] Suc show ?thesis by simp
  qed
  have "w' = log_events (map (\<lambda>j. ConstructCall (Ptr r (int d + int j))) [i..<i + Suc k])
               (written (Suc k) w r (fill xs (d + i) (map Some (v # vs))))"
    unfolding w' w1 upt_Cons_map using wr by simp
  moreover have "length (v # vs) = Suc k" using len by simp
  moreover have "d + i + Suc k \<le> length xs" using b bound by (cases k) auto
  ultimately show ?case using ext' by blast
qed

lemma ConstructElements_loop_external_Throw:
  assumes "external vals" and "get_buffer P w r = Some xs" and "i + k < 2 ^ 64"
      and "ConstructElements_loop P (Ptr r (int d)) vals i k w = (Throw, vals', w')"
  shows "\<exists>j<k. (\<forall>m<i + j. d + m < length xs) \<and> (\<forall>m<i. xs ! (d + m) \<noteq> None) \<and>
           w' = log_events (map (\<lambda>m. ConstructCall (Ptr r (int d + int m))) [i..<i + j]
                            @ map (\<lambda>m. DestroyCall (Ptr r (int d + int m))) (rev [0..<i + j]))
                  (written (i + j) w r (fill xs d (replicate (i + j) None)))"
  using assms
proof (induction k arbitrary: vals i w xs)
  case 0
  then show ?case by simp
next
  case (Suc k)
  obtain st vals1 w1 where nxt: "ConstructNext P vals (Ptr r (int d + int i)) w = (st, vals1, w1)"
    by (metis prod_cases3)
  from ConstructNext_external [OF Suc.prems(1) nxt]
  consider (ok) v where "st = Normal" "external vals1"
      "construct_value P (Ptr r (int d + int i)) (Some v) w = (Normal, w1)"
    | (thrown) "st = Throw" "vals1 = vals" "w1 = w"
    | (undefined) "st = Undefined"
    by blast
  then show ?case
  proof cases
    case ok
    with nxt Suc.prems(4)
    have rest: "ConstructElements_loop P (Ptr r (int d)) vals1 (Suc i) k w1 = (Throw, vals', w')"
      by simp
    from ok(3) Suc.prems(2) have bound: "d + i < length xs"
      and w1: "w1 = log_events [ConstructCall (Ptr r (int d + int i))] (put_buffer w r (xs[d + i := Some v]))"
      by (auto simp: construct_value_Ptr split: if_splits)
    have g1: "get_buffer P w1 r = Some (xs[d + i := Some v])"
      by (simp add: w1)
    from Suc.prems(3) have lt: "Suc i + k < 2 ^ 64" by simp
    from Suc.IH [OF ok(2) g1 lt rest] obtain j where j: "j < k"
      and b: "\<forall>m<Suc i + j. d + m < length xs"
      and live: "\<forall>m<Suc i. (xs[d + i := Some v]) ! (d + m) \<noteq> None"
      and w': "w' = log_events (map (\<lambda>m. ConstructCall (Ptr r (int d + int m))) [Suc i..<Suc i + j]
                            @ map (\<lambda>m. DestroyCall (Ptr r (int d + int m))) (rev [0..<Suc i + j]))
                  (written (Suc i + j) w1 r (fill (xs[d + i := Some v]) d (replicate (Suc i + j) None)))"
      by auto
    have cover: "fill (xs[d + i := Some v]) d (replicate (Suc i + j) None)
                 = fill xs d (replicate (Suc i + j) None)"
    proof -
      have "d + (i + j) < length xs" using b by simp
      then show ?thesis
        using fill_fill_cover [of d "d + i" "[Some v]" "replicate (Suc i + j) None" xs] bound
        by (simp add: list_update_eq_fill)
    qed
    have live': "\<forall>m<i. xs ! (d + m) \<noteq> None"
    proof (intro allI impI)
      fix m assume "m < i"
      then have "m < Suc i" by simp
      with live have "(xs[d + i := Some v]) ! (d + m) \<noteq> None" by blast
      with \<open>m < i\<close> show "xs ! (d + m) \<noteq> None" by simp
    qed
    have "w' = log_events (map (\<lambda>m. ConstructCall (Ptr r (int d + int m))) [i..<i + Suc j]
                            @ map (\<lambda>m. DestroyCall (Ptr r (int d + int m))) (rev [0..<i + Suc j]))
                  (written (i + Suc j) w r (fill xs d (replicate (i + Suc j) None)))"
      unfolding w' w1 upt_Cons_map using cover by simp
    with j b live' show ?thesis
      by (intro exI [of _ "Suc j"]) simp
  next
    case thrown
    with nxt Suc.prems(4) have de: "DestroyElements_loop P (Ptr r (int d)) (unat (of_nat i :: SizeType)) w = (Normal, w')"
      using DestroyElements_loop_not_Throw [of P "Ptr r (int d)" "unat (of_nat i :: SizeType)" w]
      by (auto split: prod.splits status.splits)
    from Suc.prems(3) have "unat (of_nat i :: SizeType) = i"
      by (intro unat_of_nat_SizeType) simp
    with de have "DestroyElements_loop P (Ptr r (int d)) i w = (Normal, w')" by simp
    from DestroyElements_loop_Normal [OF Suc.prems(2) this]
    show ?thesis by (intro exI [of _ 0]) simp
  next
    case undefined
    with nxt Suc.prems(4) show ?thesis by simp
  qed
qed

lemma ptr_add_0 [simp]: "ptr_add p 0 = p"
  by (cases p) simp_all

lemma ConstructElements_loop_external_Throw_invalid:
  assumes "external vals" and "\<forall>v. store P w (ptr_add p (int i)) (Some v) = None"
      and "ConstructElements_loop P p vals i k w = (Throw, vals', w')"
  shows "DestroyElements P p (of_nat i) w = (Normal, w')"
proof (cases k)
  case 0
  with assms show ?thesis by simp
next
  case (Suc k')
  obtain st vals1 w1 where nxt: "ConstructNext P vals (ptr_add p (int i)) w = (st, vals1, w1)"
    by (metis prod_cases3)
  from ConstructNext_external [OF assms(1) nxt] assms(2)
  have "(st = Throw \<and> w1 = w) \<or> st = Undefined"
    by (auto simp: construct_value_def)
  with nxt assms(3) Suc show ?thesis
    using DestroyElements_not_Throw [of P p "of_nat i" w]
    by (auto split: prod.splits status.splits)
qed

subsection \<open>The trace only grows\<close>

lemma extends_refl [simp]: "extends w w"
  by (simp add: extends_def)

lemma extends_trans: "extends w w1 \<Longrightarrow> extends w1 w2 \<Longrightarrow> extends w w2"
  by (auto simp: extends_def)

lemma extends_log_events [simp]: "extends w w' \<Longrightarrow> extends w (log_events es w')"
  by (auto simp: extends_def)

lemma trace_store: "store P w p x = Some w' \<Longrightarrow> trace w' = trace w"
  by (erule storeD) simp

lemma extends_trace_eq: "trace w' = trace w \<Longrightarrow> extends w w'"
  by (simp add: extends_def)

lemma extends_construct_value: "extends w (snd (construct_value P p outcome w))"
  by (auto simp: construct_value_def log_event_eq trace_store extends_trace_eq split: option.splits)

lemma extends_construct_move: "extends w (snd (construct_move P p q w))"
  by (auto simp: construct_move_def log_event_eq trace_store extends_trace_eq split: option.splits)

lemma extends_destroy: "extends w (snd (destroy P p w))"
  by (auto simp: destroy_def log_event_eq trace_store extends_trace_eq split: option.splits)

lemma extends_deallocate: "extends w (snd (deallocate P p n w))"
  by (auto simp: deallocate_def log_event_eq extends_def log_events_def
           split: Pointer.splits region.splits option.splits)

lemma extends_DestroyElements_loop: "extends w (snd (DestroyElements_loop P p n w))"
proof (induction n arbitrary: w)
  case 0 show ?case by simp
next
  case (Suc n)
  show ?case
    using extends_destroy [of w P "ptr_add p (int n)"] Suc [of "snd (destroy P (ptr_add p (int n)) w)"]
    by (auto split: prod.splits status.splits intro: extends_trans)
qed

lemma extends_DestroyElements: "extends w (snd (DestroyElements P p n w))"
  by (simp add: DestroyElements_def extends_DestroyElements_loop)

lemma extends_ConstructNext: "extends w (snd (snd (ConstructNext P vals p w)))"
proof (cases vals)
  case (IteratorValueAdapter it)
  then show ?thesis
    using extends_construct_value [of w P p "copy_construct P (hd it)"]
    by (cases it) (auto split: prod.splits status.splits)
next
  case (MoveValueAdapter q)
  then show ?thesis
    using extends_construct_move [of w P p q] by (auto split: prod.splits status.splits)
next
  case (CopyValueAdapter v)
  then show ?thesis
    using extends_construct_value [of w P p "copy_construct P v"] by (auto split: prod.splits)
next
  case DefaultValueAdapter
  then show ?thesis
    using extends_construct_value [of w P p "default_construct P"] by (auto split: prod.splits)
qed

lemma extends_ConstructElements_loop: "extends w (snd (snd (ConstructElements_loop P p vals i k w)))"
proof (induction k arbitrary: vals i w)
  case 0 show ?case by simp
next
  case (Suc k)
  obtain st vals1 w1 where nxt: "ConstructNext P vals (ptr_add p (int i)) w = (st, vals1, w1)"
    by (metis prod_cases3)
  with extends_ConstructNext [of w P vals "ptr_add p (int i)"] have e1: "extends w w1" by simp
  show ?case
  proof (cases st)
    case Normal
    with nxt e1 Suc [of w1 vals1 "Suc i"] show ?thesis by (auto intro: extends_trans)
  next
    case Throw
    with nxt e1 extends_DestroyElements [of w1 P p "of_nat i"] show ?thesis
      by (auto split: prod.splits status.splits intro: extends_trans)
  next
    case Undefined
    with nxt e1 show ?thesis by simp
  qed
qed

lemma extends_ConstructElements: "extends w (snd (snd (ConstructElements P p vals n w)))"
  by (simp add: ConstructElements_def extends_ConstructElements_loop)

lemma extends_DeallocateIfAllocated: "extends w (snd (DeallocateIfAllocated P this w))"
  by (simp add: DeallocateIfAllocated_def extends_deallocate)

lemma extends_AllocationTransaction_dtor: "extends w (snd (AllocationTransaction_dtor P tx w))"
  by (simp add: AllocationTransaction_dtor_def extends_deallocate)

lemma extends_upd_storage [simp]: "extends w (upd_storage i f w') = extends w w'"
  by (simp add: extends_def upd_storage_def)

subsection \<open>\<open>EmplaceBack\<close>: failure of the new element\<close>

lemma deallocate_fresh:
  "heap w a = None \<Longrightarrow>
   deallocate P (Ptr (HeapBlock a) 0) n (log_events es (w\<lparr>heap := (heap w)(a \<mapsto> replicate (unat n) None), next_block := b\<rparr>))
   = (Normal, log_events (es @ [DeallocateCall a n]) (w\<lparr>next_block := b\<rparr>))"
  by (simp add: deallocate_def log_event_eq log_events_def fun_upd_idem)

lemma allocate_eq:
  "allocate P n w =
     (if max_size P < unat n then (Throw, nullptr, w)
      else (Normal, Ptr (HeapBlock (next_block w)) 0,
            log_events [AllocateCall (next_block w) n]
              (w\<lparr>heap := (heap w)(next_block w \<mapsto> replicate (unat n) None),
                 next_block := Suc (next_block w)\<rparr>)))"
  by (simp add: allocate_def log_event_eq)

lemma EmplaceBack_full:
  "view_size (MakeStorageView P this (storages w this)) = view_capacity (MakeStorageView P this (storages w this))
   \<Longrightarrow> EmplaceBack P this args w = EmplaceBackSlow P this args w"
  by (simp add: EmplaceBack_def Let_def)

lemma extends_unwind_AllocationTransaction:
  "extends w (snd (unwind [AllocationTransaction_dtor P tx] w))"
  using extends_AllocationTransaction_dtor [of w P tx]
  by (auto split: prod.splits status.splits)

subsection \<open>\<open>Initialize\<close>: failure\<close>

lemma fill_same:
  assumes "d + length ys \<le> length xs" "\<And>m. m < length ys \<Longrightarrow> xs ! (d + m) = ys ! m"
  shows "fill xs d ys = xs"
proof -
  have "xs ! j = ys ! (j - d)" if "d \<le> j" "j < d + length ys" for j
    using assms(2) [of "j - d"] that by simp
  then have "xs = fill xs d ys"
    using assms(1) by (intro fill_eqI) auto
  then show ?thesis by simp
qed

lemma written_all_None:
  assumes "get_buffer P w r = Some (replicate n None)" "stable w r" "\<forall>m<j. d + m < n"
  shows "written j w r (fill (replicate n None) d (replicate j None)) = w"
proof (cases j)
  case 0
  then show ?thesis by simp
next
  case (Suc j')
  with assms(3) have "d + j' < n" by simp
  then have "fill (replicate n None) d (replicate j (None :: 'a option)) = replicate n None"
    unfolding Suc by (intro fill_same) (simp_all del: replicate_Suc)
  with assms Suc show ?thesis by (simp add: put_buffer_same)
qed

lemma Storage_init_fields [simp]:
  "GetIsAllocated (Storage_init al P) = False"
  "GetSize (Storage_init al P) = 0"
  "size_and_is_allocated (Storage_init al P) = 0"
  "data (Storage_init al P) = Inlined (replicate (N P) None)"
  by (simp_all add: Storage_init_def GetIsAllocated_def GetSize_def)

lemma ConstructElements_external_Throw_clean:
  assumes "external vals" and "get_buffer P w r = Some (replicate n None)" and "stable w r"
      and "ConstructElements P (Ptr r 0) vals sz w = (Throw, vals', w')"
  shows "\<exists>es. w' = log_events es w"
proof -
  have lt: "0 + unat sz < 2 ^ 64" using unsigned_less [of sz, where 'a = nat] by simp
  from assms(4) have "ConstructElements_loop P (Ptr r (int 0)) vals 0 (unat sz) w = (Throw, vals', w')"
    by (simp add: ConstructElements_def)
  from ConstructElements_loop_external_Throw [OF assms(1,2) lt this]
  obtain j es where b: "\<forall>m<j. m < n"
    and w': "w' = log_events es (written j w r (fill (replicate n None) 0 (replicate j None)))"
    by auto
  from written_all_None [OF assms(2,3), of j 0] b have "written j w r (fill (replicate n None) 0 (replicate j None)) = w"
    by simp
  with w' show ?thesis by auto
qed

text \<open>
  C1, as stated, fails: \<open>Initialize\<close> uses no transaction guard. With \<open>new_size > N\<close> it
  allocates, stores the pointer and sets the allocated bit before it constructs; when a
  construction then throws, the caller sees a \<open>Storage\<close> that is allocated and owns the heap
  block (the comment in the source leaves the deallocation to \<open>~Storage()\<close>). Here \<open>N = 2\<close>
  and the third of three elements throws.
\<close>

theorem Initialize_failure_keeps_allocation:
  "fst (Initialize example_instance 0 (IteratorValueAdapter [1, 2, 13]) 3 (fresh_world example_instance)) = Throw \<and>
   GetIsAllocated (storages (snd (Initialize example_instance 0 (IteratorValueAdapter [1, 2, 13]) 3
                                    (fresh_world example_instance))) 0) \<and>
   heap (snd (Initialize example_instance 0 (IteratorValueAdapter [1, 2, 13]) 3
                (fresh_world example_instance))) 0 = Some [None, None, None, None]"
  by code_simp

subsection \<open>\<open>ConstructElements\<close> moving from another buffer\<close>

lemma put_buffer_commute: "r \<noteq> r' \<Longrightarrow>
  put_buffer (put_buffer w r xs) r' ys = put_buffer (put_buffer w r' ys) r xs"
  by (cases r; cases r') (auto simp: upd_storage_def fun_upd_twist)

lemma put_buffer_collapse [simp]: "r \<noteq> r' \<Longrightarrow>
  put_buffer (put_buffer (put_buffer w r xs) r' ys) r zs = put_buffer (put_buffer w r zs) r' ys"
  by (simp add: put_buffer_commute [of r' r])

lemma construct_move_Ptr:
  assumes "rs \<noteq> rd" "get_buffer P w rs = Some src" "get_buffer P w rd = Some dst"
  shows "construct_move P (Ptr rd d) (Ptr rs s) w =
    (if 0 \<le> s \<and> nat s < length src \<and> src ! nat s \<noteq> None
     then (case move_construct P (the (src ! nat s)) of
             None \<Rightarrow> (Throw, w)
           | Some (v', l) \<Rightarrow>
               if 0 \<le> d \<and> nat d < length dst
               then (Normal, log_events [ConstructCall (Ptr rd d)]
                               (put_buffer (put_buffer w rs (src[nat s := Some l])) rd (dst[nat d := Some v'])))
               else (Undefined, w))
     else (Undefined, w))"
  using assms
  by (auto simp: construct_move_def load_Ptr store_Ptr log_event_eq split: option.splits)

lemma take_Suc_drop: "s < length xs \<Longrightarrow> take (Suc k) (drop s xs) = xs ! s # take k (drop (Suc s) xs)"
  by (metis Cons_nth_drop_Suc take_Suc_Cons)

lemma ConstructElements_loop_move_Normal:
  assumes "rs \<noteq> rd" and "get_buffer P w rs = Some src" and "get_buffer P w rd = Some dst"
      and "ConstructElements_loop P (Ptr rd (int d)) (MoveValueAdapter (Ptr rs (int s))) i k w = (Normal, vals', w')"
  shows "(0 < k \<longrightarrow> d + i + k \<le> length dst \<and> s + k \<le> length src) \<and>
         vals' = MoveValueAdapter (Ptr rs (int (s + k))) \<and>
         (\<exists>vs. length vs = k \<and> map Some vs = take k (drop s src) \<and> (\<forall>v\<in>set vs. move_construct P v \<noteq> None) \<and>
            w' = log_events (map (\<lambda>j. ConstructCall (Ptr rd (int d + int j))) [i..<i + k])
                   (written k (written k w rs (fill src s (map (Some \<circ> moved_from P) vs)))
                      rd (fill dst (d + i) (map (Some \<circ> moved_to P) vs))))"
  using assms(2-)
proof (induction k arbitrary: s i w src dst)
  case 0
  then show ?case by simp
next
  case (Suc k)
  let ?p = "Ptr rd (int d + int i)"
  from Suc.prems(3) obtain w1 where
    cm: "construct_move P ?p (Ptr rs (int s)) w = (Normal, w1)"
    and rest: "ConstructElements_loop P (Ptr rd (int d)) (MoveValueAdapter (Ptr rs (int (Suc s)))) (Suc i) k w1 = (Normal, vals', w')"
    by (auto split: prod.splits status.splits simp: add.commute)
  from cm obtain v v' l where sb: "s < length src" and sv: "src ! s = Some v"
    and mc: "move_construct P v = Some (v', l)" and db: "d + i < length dst"
    and w1: "w1 = log_events [ConstructCall ?p]
                    (put_buffer (put_buffer w rs (src[s := Some l])) rd (dst[d + i := Some v']))"
    by (auto simp: construct_move_Ptr [OF assms(1) Suc.prems(1,2)] split: if_splits option.splits)
  have g1: "get_buffer P w1 rs = Some (src[s := Some l])" "get_buffer P w1 rd = Some (dst[d + i := Some v'])"
    using assms(1) by (simp_all add: w1)
  from Suc.IH [OF g1 rest, unfolded length_list_update] obtain vs where
    b: "0 < k \<longrightarrow> d + Suc i + k \<le> length dst \<and> Suc s + k \<le> length src"
    and va: "vals' = MoveValueAdapter (Ptr rs (int (Suc s + k)))"
    and len: "length vs = k"
    and vs: "map Some vs = take k (drop (Suc s) (src[s := Some l]))"
    and ok: "\<forall>v\<in>set vs. move_construct P v \<noteq> None"
    and w': "w' = log_events (map (\<lambda>j. ConstructCall (Ptr rd (int d + int j))) [Suc i..<Suc i + k])
               (written k (written k w1 rs (fill (src[s := Some l]) (Suc s) (map (Some \<circ> moved_from P) vs)))
                  rd (fill (dst[d + i := Some v']) (d + Suc i) (map (Some \<circ> moved_to P) vs)))"
    by blast
  have bounds: "d + i + Suc k \<le> length dst \<and> s + Suc k \<le> length src"
    using b sb db by (cases k) auto
  have vs': "map Some (v # vs) = take (Suc k) (drop s src)"
    using vs sb sv by (simp add: take_Suc_drop)
  have mt: "moved_to P v = v'" "moved_from P v = l"
    using mc by (simp_all add: moved_to_def moved_from_def)
  have fs: "k \<noteq> 0 \<Longrightarrow> fill (src[s := Some l]) (Suc s) (map (Some \<circ> moved_from P) vs)
            = fill src s (map (Some \<circ> moved_from P) (v # vs))"
    using fill_update_Cons [of s "map (Some \<circ> moved_from P) vs" src "Some l"] bounds len mt by simp
  have fd: "k \<noteq> 0 \<Longrightarrow> fill (dst[d + i := Some v']) (d + Suc i) (map (Some \<circ> moved_to P) vs)
            = fill dst (d + i) (map (Some \<circ> moved_to P) (v # vs))"
    using fill_update_Cons [of "d + i" "map (Some \<circ> moved_to P) vs" dst "Some v'"] bounds len mt by simp
  have wr: "written k (written k (put_buffer (put_buffer w rs (src[s := Some l])) rd (dst[d + i := Some v'])) rs
                (fill (src[s := Some l]) (Suc s) (map (Some \<circ> moved_from P) vs)))
              rd (fill (dst[d + i := Some v']) (d + Suc i) (map (Some \<circ> moved_to P) vs))
            = put_buffer (put_buffer w rs (fill src s (map (Some \<circ> moved_from P) (v # vs))))
                rd (fill dst (d + i) (map (Some \<circ> moved_to P) (v # vs)))"
  proof (cases k)
    case 0
    with len sb db mt show ?thesis by (simp add: list_update_eq_fill)
  next
    case (Suc m)
    then have "k \<noteq> 0" by simp
    from fs [OF this] fd [OF this] Suc assms(1) show ?thesis by simp
  qed
  have "w' = log_events (map (\<lambda>j. ConstructCall (Ptr rd (int d + int j))) [i..<i + Suc k])
               (written (Suc k) (written (Suc k) w rs (fill src s (map (Some \<circ> moved_from P) (v # vs))))
                  rd (fill dst (d + i) (map (Some \<circ> moved_to P) (v # vs))))"
    unfolding w' w1 upt_Cons_map using wr by simp
  moreover have "\<forall>x\<in>set (v # vs). move_construct P x \<noteq> None" using ok mc by simp
  moreover have "length (v # vs) = Suc k" using len by simp
  moreover have "vals' = MoveValueAdapter (Ptr rs (int (s + Suc k)))" using va by simp
  ultimately show ?case using bounds vs' by blast
qed

lemma ConstructElements_loop_move_Throw:
  assumes "rs \<noteq> rd" and "get_buffer P w rs = Some src" and "get_buffer P w rd = Some dst"
      and "i + k < 2 ^ 64"
      and "ConstructElements_loop P (Ptr rd (int d)) (MoveValueAdapter (Ptr rs (int s))) i k w = (Throw, vals', w')"
  shows "\<exists>j<k. (\<forall>m<i + j. d + m < length dst) \<and> (\<forall>m<i. dst ! (d + m) \<noteq> None) \<and> s + j < length src \<and>
           (\<exists>vs v. length vs = j \<and> map Some vs = take j (drop s src) \<and>
                    (\<forall>v\<in>set vs. move_construct P v \<noteq> None) \<and>
                    src ! (s + j) = Some v \<and> move_construct P v = None \<and>
              w' = log_events (map (\<lambda>m. ConstructCall (Ptr rd (int d + int m))) [i..<i + j]
                               @ map (\<lambda>m. DestroyCall (Ptr rd (int d + int m))) (rev [0..<i + j]))
                     (written (i + j) (written j w rs (fill src s (map (Some \<circ> moved_from P) vs)))
                        rd (fill dst d (replicate (i + j) None))))"
  using assms(2-)
proof (induction k arbitrary: s i w src dst)
  case 0
  then show ?case by simp
next
  case (Suc k)
  let ?p = "Ptr rd (int d + int i)"
  obtain st1 w1 where cm: "construct_move P ?p (Ptr rs (int s)) w = (st1, w1)"
    by (metis prod.exhaust)
  show ?case
  proof (cases st1)
    case Normal
    with cm Suc.prems(4) have
      rest: "ConstructElements_loop P (Ptr rd (int d)) (MoveValueAdapter (Ptr rs (int (Suc s)))) (Suc i) k w1 = (Throw, vals', w')"
      by (auto simp: add.commute)
    from cm Normal obtain v v' l where sb: "s < length src" and sv: "src ! s = Some v"
      and mc: "move_construct P v = Some (v', l)" and db: "d + i < length dst"
      and w1: "w1 = log_events [ConstructCall ?p]
                      (put_buffer (put_buffer w rs (src[s := Some l])) rd (dst[d + i := Some v']))"
      by (auto simp: construct_move_Ptr [OF assms(1) Suc.prems(1,2)] split: if_splits option.splits)
    have g1: "get_buffer P w1 rs = Some (src[s := Some l])" "get_buffer P w1 rd = Some (dst[d + i := Some v'])"
      using assms(1) by (simp_all add: w1)
    from Suc.prems(3) have lt: "Suc i + k < 2 ^ 64" by simp
    from Suc.IH [OF g1 lt rest, unfolded length_list_update] obtain j vs u where
      j: "j < k" and b: "\<forall>m<Suc i + j. d + m < length dst"
      and live: "\<forall>m<Suc i. (dst[d + i := Some v']) ! (d + m) \<noteq> None"
      and sj: "Suc s + j < length src"
      and len: "length vs = j"
      and vs: "map Some vs = take j (drop (Suc s) (src[s := Some l]))"
      and ok: "\<forall>v\<in>set vs. move_construct P v \<noteq> None"
      and u: "(src[s := Some l]) ! (Suc s + j) = Some u" "move_construct P u = None"
      and w': "w' = log_events (map (\<lambda>m. ConstructCall (Ptr rd (int d + int m))) [Suc i..<Suc i + j]
                               @ map (\<lambda>m. DestroyCall (Ptr rd (int d + int m))) (rev [0..<Suc i + j]))
                     (written (Suc i + j) (written j w1 rs (fill (src[s := Some l]) (Suc s) (map (Some \<circ> moved_from P) vs)))
                        rd (fill (dst[d + i := Some v']) d (replicate (Suc i + j) None)))"
      by blast
    have mt: "moved_to P v = v'" "moved_from P v = l"
      using mc by (simp_all add: moved_to_def moved_from_def)
    have vs': "map Some (v # vs) = take (Suc j) (drop s src)"
      using vs sb sv by (simp add: take_Suc_drop)
    have u': "src ! (s + Suc j) = Some u" using u(1) by simp
    have live': "\<forall>m<i. dst ! (d + m) \<noteq> None"
    proof (intro allI impI)
      fix m assume "m < i"
      then have "m < Suc i" by simp
      with live have "(dst[d + i := Some v']) ! (d + m) \<noteq> None" by blast
      with \<open>m < i\<close> show "dst ! (d + m) \<noteq> None" by simp
    qed
    have cover: "fill (dst[d + i := Some v']) d (replicate (Suc i + j) None)
                 = fill dst d (replicate (Suc i + j) None)"
    proof -
      have "d + (i + j) < length dst" using b by simp
      then show ?thesis
        using fill_fill_cover [of d "d + i" "[Some v']" "replicate (Suc i + j) None" dst] db
        by (simp add: list_update_eq_fill)
    qed
    have fs: "j \<noteq> 0 \<Longrightarrow> fill (src[s := Some l]) (Suc s) (map (Some \<circ> moved_from P) vs)
              = fill src s (map (Some \<circ> moved_from P) (v # vs))"
      using fill_update_Cons [of s "map (Some \<circ> moved_from P) vs" src "Some l"] sj len mt by simp
    have wr: "written (Suc i + j)
                (written j (put_buffer (put_buffer w rs (src[s := Some l])) rd (dst[d + i := Some v'])) rs
                   (fill (src[s := Some l]) (Suc s) (map (Some \<circ> moved_from P) vs)))
                rd (fill (dst[d + i := Some v']) d (replicate (Suc i + j) None))
              = put_buffer (put_buffer w rs (fill src s (map (Some \<circ> moved_from P) (v # vs))))
                  rd (fill dst d (replicate (Suc i + j) None))"
    proof (cases j)
      case 0
      with len sb mt cover show ?thesis by (simp add: list_update_eq_fill)
    next
      case (Suc m)
      then have "j \<noteq> 0" by simp
      from fs [OF this] cover Suc assms(1) show ?thesis by simp
    qed
    have "w' = log_events (map (\<lambda>m. ConstructCall (Ptr rd (int d + int m))) [i..<i + Suc j]
                            @ map (\<lambda>m. DestroyCall (Ptr rd (int d + int m))) (rev [0..<i + Suc j]))
                  (written (i + Suc j) (written (Suc j) w rs (fill src s (map (Some \<circ> moved_from P) (v # vs))))
                     rd (fill dst d (replicate (i + Suc j) None)))"
      unfolding w' w1 upt_Cons_map using wr by simp
    moreover have "\<forall>x\<in>set (v # vs). move_construct P x \<noteq> None" using ok mc by simp
    moreover have "length (v # vs) = Suc j" using len by simp
    moreover have "\<forall>m<i + Suc j. d + m < length dst" using b by simp
    moreover have "s + Suc j < length src" using sj by simp
    moreover have "Suc j < Suc k" using j by simp
    ultimately show ?thesis
      using live' vs' u' u(2) by blast
  next
    case Throw
    from cm Throw obtain v where sb: "s < length src" and sv: "src ! s = Some v"
      and mc: "move_construct P v = None" and w1: "w1 = w"
      by (auto simp: construct_move_Ptr [OF assms(1) Suc.prems(1,2)] split: if_splits option.splits)
    from cm Throw w1 Suc.prems(4)
    have de: "DestroyElements_loop P (Ptr rd (int d)) (unat (of_nat i :: SizeType)) w = (Normal, w')"
      using DestroyElements_loop_not_Throw [of P "Ptr rd (int d)" "unat (of_nat i :: SizeType)" w]
      by (auto split: prod.splits status.splits)
    from Suc.prems(3) have "unat (of_nat i :: SizeType) = i"
      by (intro unat_of_nat_SizeType) simp
    with de have de': "DestroyElements_loop P (Ptr rd (int d)) i w = (Normal, w')" by simp
    from DestroyElements_loop_Normal [OF Suc.prems(2) de'] sb sv mc
    show ?thesis
      by (intro exI [of _ 0]) simp
  next
    case Undefined
    with cm Suc.prems(4) show ?thesis by simp
  qed
qed

subsection \<open>Well-formed \<open>Storage\<close> objects\<close>

lemma map_Some_the: "\<forall>x\<in>set ys. x \<noteq> None \<Longrightarrow> map Some (map the ys) = ys"
  by (induction ys) auto

lemma all_None_replicate: "\<forall>x\<in>set ys. x = None \<Longrightarrow> ys = replicate (length ys) None"
  by (induction ys) auto

lemma live_prefix_iff:
  "live_prefix xs n \<longleftrightarrow> (\<exists>vs. length vs = n \<and> n \<le> length xs \<and> xs = map Some vs @ replicate (length xs - n) None)"
proof
  assume lp: "live_prefix xs n"
  then have n: "n \<le> length xs" and a: "\<forall>x\<in>set (take n xs). x \<noteq> None" and b: "\<forall>x\<in>set (drop n xs). x = None"
    by (simp_all add: live_prefix_def list_all_iff)
  have 1: "map Some (map the (take n xs)) = take n xs"
    using a by (rule map_Some_the)
  have 2: "drop n xs = replicate (length xs - n) None"
    using all_None_replicate [OF b] by simp
  have "xs = take n xs @ drop n xs" by simp
  then have "xs = map Some (map the (take n xs)) @ replicate (length xs - n) None"
    unfolding 1 using 2 by metis
  moreover have "length (map the (take n xs)) = n" using n by simp
  ultimately show "\<exists>vs. length vs = n \<and> n \<le> length xs \<and> xs = map Some vs @ replicate (length xs - n) None"
    using n by blast
next
  assume "\<exists>vs. length vs = n \<and> n \<le> length xs \<and> xs = map Some vs @ replicate (length xs - n) None"
  then obtain vs where vs: "length vs = n" "n \<le> length xs" and xs: "xs = map Some vs @ replicate (length xs - n) None"
    by blast
  define k where "k = length xs - n"
  have xs': "xs = map Some vs @ replicate k None" using xs by (simp add: k_def)
  have "take n xs = map Some vs" "drop n xs = replicate k None"
    using vs(1) by (simp_all add: xs')
  with vs show "live_prefix xs n"
    by (simp add: live_prefix_def list_all_iff)
qed

lemma unat_GetInlinedCapacity: "sane P \<Longrightarrow> unat (GetInlinedCapacity P) = N P"
  by (simp add: sane_def GetInlinedCapacity_def unat_of_nat)

lemma map_the_take: "map the (take (length vs) (map Some vs @ ys)) = vs"
  by (simp add: comp_def)

lemma live_prefix_replicate_None: "live_prefix (replicate n None) k \<Longrightarrow> 0 < n \<Longrightarrow> k = 0"
  by (cases k) (auto simp: live_prefix_def list_all_iff take_Suc_conv_app_nth)

lemma wf_buffer:
  assumes "sane P" "wf P w this"
  obtains r vs where
    "view_data (MakeStorageView P this (storages w this)) = Ptr r 0"
    "data_region this (storages w this) = Some r"
    "\<not> stale w this \<longrightarrow> stable w r"
    "get_buffer P w r = Some (map Some vs @ replicate (unat (view_capacity (MakeStorageView P this (storages w this))) - length vs) None)"
    "length vs = unat (view_size (MakeStorageView P this (storages w this)))"
    "length vs \<le> unat (view_capacity (MakeStorageView P this (storages w this)))"
    "elements P w this = vs"
    "N P \<le> unat (view_capacity (MakeStorageView P this (storages w this)))"
    "case r of HeapBlock a \<Rightarrow> GetIsAllocated (storages w this) \<and>
                  data (storages w this) = Allocated (Ptr (HeapBlock a) 0) (view_capacity (MakeStorageView P this (storages w this)))
             | InlinedBuffer i \<Rightarrow> i = this \<and> \<not> GetIsAllocated (storages w this)"
    "stale w this \<longrightarrow> vs = []"
proof (cases "GetIsAllocated (storages w this)")
  case al: True
  with assms(2) obtain a xs c where c: "N P < unat c"
    and d: "data (storages w this) = Allocated (Ptr (HeapBlock a) 0) c"
    and h: "heap w a = Some xs" and len: "length xs = unat c"
    and lp: "live_prefix xs (unat (GetSize (storages w this)))"
    by (auto simp: wf_def Let_def split: Data.splits Pointer.splits region.splits option.splits)
  define k where "k = unat c - unat (GetSize (storages w this))"
  from lp len obtain vs where vs: "length vs = unat (GetSize (storages w this))" "length vs \<le> unat c"
    and xs: "xs = map Some vs @ replicate k None"
    unfolding live_prefix_iff k_def by auto
  have sv: "MakeStorageView P this (storages w this)
            = \<lparr>view_data = Ptr (HeapBlock a) 0, view_size = GetSize (storages w this), view_capacity = c\<rparr>"
    by (simp add: MakeStorageView_def al GetAllocatedData_def GetAllocatedCapacity_def d)
  have el: "elements P w this = vs"
    by (simp add: elements_def data_region_def al GetAllocatedData_def d h xs vs(1) [symmetric]
                  get_buffer.simps map_the_take del: take_append)
  show ?thesis
  proof (rule that [of "HeapBlock a" vs])
    show "get_buffer P w (HeapBlock a) = Some (map Some vs @ replicate (unat (view_capacity (MakeStorageView P this (storages w this))) - length vs) None)"
      by (simp add: sv h xs k_def vs(1) get_buffer.simps)
  qed (use vs c al el in \<open>simp_all add: sv data_region_def GetAllocatedData_def d stable_def stale_def\<close>)
next
  case al: False
  with assms(2) obtain xs where gb: "get_buffer P w (InlinedBuffer this) = Some xs"
    and len: "length xs = N P"
    and lp: "live_prefix xs (unat (GetSize (storages w this)))"
    by (auto simp: wf_def Let_def split: option.splits)
  define k where "k = N P - unat (GetSize (storages w this))"
  from lp len obtain vs where vs: "length vs = unat (GetSize (storages w this))" "length vs \<le> N P"
    and xs: "xs = map Some vs @ replicate k None"
    unfolding live_prefix_iff k_def by auto
  have sv: "MakeStorageView P this (storages w this)
            = \<lparr>view_data = Ptr (InlinedBuffer this) 0, view_size = GetSize (storages w this),
               view_capacity = GetInlinedCapacity P\<rparr>"
    by (simp add: MakeStorageView_def al GetInlinedData_def)
  have el: "elements P w this = vs"
    using gb
    by (simp add: elements_def data_region_def al xs vs(1) [symmetric] map_the_take
             del: take_append get_buffer.simps)
  have st: "\<not> stale w this \<longrightarrow> stable w (InlinedBuffer this)"
    by (simp add: stale_def stable_def al split: Data.splits)
  have e: "stale w this \<longrightarrow> vs = []"
  proof
    assume "stale w this"
    then have "xs = replicate (N P) None"
      using gb by (auto simp: stale_def get_buffer.simps split: Data.splits)
    with lp assms(1) have "unat (GetSize (storages w this)) = 0"
      by (auto simp: sane_def dest: live_prefix_replicate_None)
    with vs(1) show "vs = []" by simp
  qed
  show ?thesis
  proof (rule that [of "InlinedBuffer this" vs])
    show "get_buffer P w (InlinedBuffer this) = Some (map Some vs @ replicate (unat (view_capacity (MakeStorageView P this (storages w this))) - length vs) None)"
      by (simp add: sv gb xs k_def vs(1) unat_GetInlinedCapacity [OF assms(1)] del: get_buffer.simps)
  qed (use vs al el st e assms(1) in \<open>simp_all add: sv data_region_def unat_GetInlinedCapacity\<close>)
qed

subsection \<open>\<open>EmplaceBack\<close>: failure while moving the existing elements\<close>

declare put_buffer.simps [simp del] get_buffer.simps [simp del]

lemma deallocate_not_Throw: "fst (deallocate P p n w) \<noteq> Throw"
  by (simp add: deallocate_def split: Pointer.splits region.splits)

lemma DeallocateIfAllocated_not_Throw: "fst (DeallocateIfAllocated P this w) \<noteq> Throw"
  by (simp add: DeallocateIfAllocated_def deallocate_not_Throw)

lemma never_Throw [simp]:
  "deallocate P p n w \<noteq> (Throw, w')"
  "DeallocateIfAllocated P this w \<noteq> (Throw, w')"
  "destroy P p w \<noteq> (Throw, w')"
  "DestroyElements P p n w \<noteq> (Throw, w')"
  "DestroyElements_loop P p k w \<noteq> (Throw, w')"
  using deallocate_not_Throw [of P p n w] DeallocateIfAllocated_not_Throw [of P this w]
    destroy_not_Throw [of P p w] DestroyElements_not_Throw [of P p n w]
    DestroyElements_loop_not_Throw [of P p k w]
  by (metis fst_conv)+

lemma stable_heap_update [simp]: "stable (w\<lparr>heap := h, next_block := b\<rparr>) r = stable w r"
  by (simp add: stable_def split: region.splits)

lemma get_buffer_heap_update:
  "get_buffer P (w\<lparr>heap := h, next_block := b\<rparr>) r
   = (case r of HeapBlock a \<Rightarrow> h a | InlinedBuffer i \<Rightarrow> get_buffer P w (InlinedBuffer i))"
  by (cases r) (simp_all add: get_buffer.simps)

lemma deallocate_Ptr:
  "heap w a = Some xs \<Longrightarrow> length xs = unat n \<Longrightarrow>
   deallocate P (Ptr (HeapBlock a) 0) n w
   = (Normal, log_events [DeallocateCall a n] (w\<lparr>heap := (heap w)(a := None)\<rparr>))"
  by (simp add: deallocate_def log_event_eq)

lemma fill_moved_prefix:
  assumes "map Some vsj = take j (map Some vs)" "length vsj = j" "j \<le> length vs"
  shows "fill (map Some vs) 0 (map (Some \<circ> f) vsj) = map Some (map f (take j vs) @ drop j vs)"
proof -
  from assms(1) have "map Some vsj = map Some (take j vs)" by (simp add: take_map)
  then have "vsj = take j vs" by (simp add: inj_map_eq_map)
  then show ?thesis
    using assms(3) by (simp add: fill_def drop_map)
qed

lemma live_prefix_map_Some: "live_prefix (map Some vs @ replicate k None) (length vs)"
  by (simp add: live_prefix_def list_all_iff)

lemma EmplaceBackSlow_Throw:
  assumes sane: "sane P" and wf: "wf P w this"
      and full: "view_size (MakeStorageView P this (storages w this))
                   = view_capacity (MakeStorageView P this (storages w this))"
      and fresh: "heap w (next_block w) = None"
      and run: "EmplaceBackSlow P this (Some v) w = (Throw, w')"
  obtains r j where
    "data_region this (storages w this) = Some r"
    "j \<le> length (elements P w this)"
    "storages w' = storages (put_buffer w r
       (map Some (map (moved_from P) (take j (elements P w this)) @ drop j (elements P w this))))"
    "heap w' = heap (put_buffer w r
       (map Some (map (moved_from P) (take j (elements P w this)) @ drop j (elements P w this))))"
    "get_buffer P w r = Some (map Some (elements P w this))"
    "stable w r"
    "\<forall>u\<in>set (take j (elements P w this)). move_construct P u \<noteq> None"
    "trace w' = trace w @
       (if max_size P < unat (NextCapacity (view_capacity (MakeStorageView P this (storages w this)))) then []
        else AllocateCall (next_block w) (NextCapacity (view_capacity (MakeStorageView P this (storages w this))))
           # ConstructCall (Ptr (HeapBlock (next_block w)) (uint (view_size (MakeStorageView P this (storages w this)))))
           # map (\<lambda>m. ConstructCall (Ptr (HeapBlock (next_block w)) (int m))) [0..<j]
           @ map (\<lambda>m. DestroyCall (Ptr (HeapBlock (next_block w)) (int m))) (rev [0..<j])
           @ [DestroyCall (Ptr (HeapBlock (next_block w)) (uint (view_size (MakeStorageView P this (storages w this))))),
              DeallocateCall (next_block w) (NextCapacity (view_capacity (MakeStorageView P this (storages w this))))])"
proof -
  let ?sv = "MakeStorageView P this (storages w this)"
  let ?sz = "view_size ?sv"
  let ?c = "NextCapacity (view_capacity ?sv)"
  let ?nb = "next_block w"
  from wf_buffer [OF sane wf] obtain r vs where
    vd: "view_data ?sv = Ptr r 0" and dr: "data_region this (storages w this) = Some r"
    and st0: "\<not> stale w this \<longrightarrow> stable w r"
    and gb0: "get_buffer P w r = Some (map Some vs @ replicate (unat (view_capacity ?sv) - length vs) None)"
    and len: "length vs = unat ?sz" and el: "elements P w this = vs"
    and ncap: "N P \<le> unat (view_capacity ?sv)"
    and rc: "case r of HeapBlock a \<Rightarrow> GetIsAllocated (storages w this) \<and>
                  data (storages w this) = Allocated (Ptr (HeapBlock a) 0) (view_capacity ?sv)
             | InlinedBuffer i \<Rightarrow> i = this \<and> \<not> GetIsAllocated (storages w this)"
    and e: "stale w this \<longrightarrow> vs = []"
    by blast
  have st: "stable w r"
  proof -
    have "0 < N P" using sane by (simp add: sane_def)
    with ncap have "0 < unat (view_capacity ?sv)" by linarith
    with len have "0 < length vs" unfolding full by linarith
    then have "vs \<noteq> []" by blast
    with e st0 show ?thesis by blast
  qed
  from gb0 len full have gb: "get_buffer P w r = Some (map Some vs)" by simp
  have put_same: "put_buffer w r (map Some vs) = w"
    using gb st by (rule put_buffer_same)
  show thesis
  proof (cases "max_size P < unat ?c")
    case True
    with run have "w' = w"
      by (simp add: EmplaceBackSlow_def Let_def Allocate_def allocate_eq)
    with dr gb st el put_same True show ?thesis
      by (intro that [of r 0]) simp_all
  next
    case False
    let ?w1 = "log_events [AllocateCall ?nb ?c]
                 (w\<lparr>heap := (heap w)(?nb \<mapsto> replicate (unat ?c) None), next_block := Suc ?nb\<rparr>)"
    let ?tx = "\<lparr>at_data = Ptr (HeapBlock ?nb) 0, at_capacity = ?c\<rparr>"
    let ?last = "Ptr (HeapBlock ?nb) (uint ?sz)"
    have ne: "r \<noteq> HeapBlock ?nb"
      using gb fresh by (cases r) (auto simp: get_buffer.simps)
    have g1r: "get_buffer P ?w1 r = Some (map Some vs)"
      using gb ne by (cases r) (simp_all add: get_buffer_heap_update get_buffer.simps)
    have g1n: "get_buffer P ?w1 (HeapBlock ?nb) = Some (replicate (unat ?c) None)"
      by (simp add: get_buffer.simps)
    obtain st2 w2 where cv: "construct_value P ?last (Some v) ?w1 = (st2, w2)"
      by (metis prod.exhaust)
    obtain st3 mv w3 where ce: "ConstructElements P (Ptr (HeapBlock ?nb) 0) (MoveValueAdapter (Ptr r 0)) ?sz w2 = (st3, mv, w3)"
      by (metis prod_cases3)
    obtain st4 w4 where ds: "destroy P ?last w3 = (st4, w4)"
      by (metis prod.exhaust)
    from run False cv have st2: "st2 = Normal"
      by (auto simp: EmplaceBackSlow_def Let_def Allocate_def allocate_eq construct_value_def
               split: option.splits)
    let ?dst = "(replicate (unat ?c) None)[unat ?sz := Some v]"
    from cv st2 have szc: "unat ?sz < unat ?c"
      and w2: "w2 = log_events [ConstructCall ?last] (put_buffer ?w1 (HeapBlock ?nb) ?dst)"
      by (auto simp: construct_value_Ptr [OF g1n] split: if_splits)
    have run': "(case st3 of
                   Normal \<Rightarrow> (case DestroyElements P (Ptr r 0) ?sz w3 of
                       (Normal, w4) \<Rightarrow>
                         (case DeallocateIfAllocated P this w4 of
                            (Normal, w5) \<Rightarrow> (Normal, upd_storage this (AddSize 1 \<circ> SetIsAllocated \<circ> AcquireAllocatedData ?tx) w5)
                          | (st, w5) \<Rightarrow> (st, w5))
                     | (st, w4) \<Rightarrow> (st, w4))
                 | Throw \<Rightarrow> (case st4 of Normal \<Rightarrow> unwind [AllocationTransaction_dtor P ?tx] w4 | _ \<Rightarrow> (st4, w4))
                 | Undefined \<Rightarrow> (Undefined, w3)) = (Throw, w')"
      using run False cv ce ds st2
      by (simp add: EmplaceBackSlow_def Let_def Allocate_def allocate_eq vd del: unwind.simps
               split: status.splits)
    have st3: "st3 = Throw"
      using run' by (cases st3) (auto split: prod.splits status.splits simp del: DestroyElements_Ptr)
    have g2r: "get_buffer P w2 r = Some (map Some vs)"
      using g1r ne by (simp add: w2)
    have g2n: "get_buffer P w2 (HeapBlock ?nb) = Some ?dst"
      by (simp add: w2)
    have lt: "0 + unat ?sz < 2 ^ 64" using unsigned_less [of ?sz, where 'a = nat] by simp
    from ce st3 have loop: "ConstructElements_loop P (Ptr (HeapBlock ?nb) (int 0)) (MoveValueAdapter (Ptr r (int 0))) 0 (unat ?sz) w2 = (Throw, mv, w3)"
      by (simp add: ConstructElements_def)
    from ConstructElements_loop_move_Throw [OF ne g2r g2n lt loop]
    obtain j vsj es where j: "j < unat ?sz" and lenj: "length vsj = j"
      and vsj: "map Some vsj = take j (map Some vs)"
      and okj: "\<forall>u\<in>set vsj. move_construct P u \<noteq> None"
      and es: "es = map (\<lambda>m. ConstructCall (Ptr (HeapBlock ?nb) (int m))) [0..<j]
                    @ map (\<lambda>m. DestroyCall (Ptr (HeapBlock ?nb) (int m))) (rev [0..<j])"
      and w3: "w3 = log_events es
                 (written j (written j w2 r (fill (map Some vs) 0 (map (Some \<circ> moved_from P) vsj)))
                    (HeapBlock ?nb) (fill ?dst 0 (replicate j None)))"
      by (auto simp: drop_0)
    let ?S = "map Some (map (moved_from P) (take j vs) @ drop j vs)"
    let ?D = "fill ?dst 0 (replicate j None)"
    have jl: "j \<le> length vs" using j len by simp
    have S: "fill (map Some vs) 0 (map (Some \<circ> moved_from P) vsj) = ?S"
      using vsj lenj jl by (rule fill_moved_prefix)
    have vsj_eq: "vsj = take j vs"
      using vsj by (simp add: take_map inj_map_eq_map)
    have S0: "j = 0 \<Longrightarrow> ?S = map Some vs" by simp
    have st2r: "stable w2 r" using st by (simp add: w2)
    have wr1: "written j w2 r ?S = put_buffer w2 r ?S"
      using st2r g2r S0 by (rule written_stable)
    have wr2: "written j (put_buffer w2 r ?S) (HeapBlock ?nb) ?D = put_buffer (put_buffer w2 r ?S) (HeapBlock ?nb) ?D"
    proof (rule written_stable)
      show "stable (put_buffer w2 r ?S) (HeapBlock ?nb)" by (simp add: stable_def)
      show "get_buffer P (put_buffer w2 r ?S) (HeapBlock ?nb) = Some ?dst" using g2n ne by simp
      show "j = 0 \<Longrightarrow> ?D = ?dst" by simp
    qed
    have w3': "w3 = log_events es (put_buffer (put_buffer w2 r ?S) (HeapBlock ?nb) ?D)"
      unfolding w3 S wr1 wr2 ..
    have lenD: "length ?D = unat ?c" using j szc by simp
    have Dsz: "?D ! unat ?sz = Some v"
      using j szc by (simp add: nth_fill)
    have g3n: "get_buffer P w3 (HeapBlock ?nb) = Some ?D"
      by (simp add: w3')
    from ds have st4: "st4 = Normal"
      and w4: "w4 = log_events [DestroyCall ?last] (put_buffer w3 (HeapBlock ?nb) (?D[unat ?sz := None]))"
      using szc lenD Dsz by (auto simp: destroy_Ptr [OF g3n])
    have h4: "heap w4 ?nb = Some (?D[unat ?sz := None])"
      by (simp add: w4 heap_put_buffer)
    have "unwind [AllocationTransaction_dtor P ?tx] w4
          = (Throw, log_events [DeallocateCall ?nb ?c] (w4\<lparr>heap := (heap w4)(?nb := None)\<rparr>))"
      using lenD by (simp add: AllocationTransaction_dtor_def DidAllocate_def deallocate_Ptr [OF h4])
    with run' st3 st4 have w': "w' = log_events [DeallocateCall ?nb ?c] (w4\<lparr>heap := (heap w4)(?nb := None)\<rparr>)"
      by simp
    have sto: "storages w' = storages (put_buffer w r ?S)"
      using ne by (cases r) (simp_all add: w' w4 w3' w2 upd_storage_def put_buffer.simps)
    have hp: "heap w' = heap (put_buffer w r ?S)"
      using ne fresh
      by (cases r) (auto simp: w' w4 w3' w2 upd_storage_def put_buffer.simps fun_upd_twist fun_upd_idem)
    have tr: "trace w' = trace w @ AllocateCall ?nb ?c # ConstructCall ?last # es @ [DestroyCall ?last, DeallocateCall ?nb ?c]"
      by (simp add: w' w4 w3' w2)
    show ?thesis
      using dr jl sto hp gb st okj tr False
      by (intro that [of r j]) (simp_all add: el vsj_eq es)
  qed
qed

lemma get_buffer_cong:
  "storages w1 = storages w2 \<Longrightarrow> heap w1 = heap w2 \<Longrightarrow> get_buffer P w1 r = get_buffer P w2 r"
  by (cases r) (simp_all add: get_buffer.simps)

lemma wf_cong:
  assumes "storages w1 = storages w2" and "heap w1 = heap w2"
  shows "wf P w1 this = wf P w2 this"
  unfolding wf_def Let_def get_buffer_cong [OF assms, of P "InlinedBuffer this"] assms ..

lemma elements_cong:
  "storages w1 = storages w2 \<Longrightarrow> heap w1 = heap w2 \<Longrightarrow> elements P w1 this = elements P w2 this"
  by (simp add: elements_def get_buffer_cong [of w1 w2] split: option.splits)

lemma data_region_cases:
  assumes "data_region this s = Some r"
  obtains (inlined) "r = InlinedBuffer this" "\<not> GetIsAllocated s"
    | (allocated) a where "r = HeapBlock a" "GetIsAllocated s" "GetAllocatedData s = Ptr (HeapBlock a) 0"
  using assms
  by (auto simp: data_region_def split: if_splits Pointer.splits region.splits)

lemma map_the_map_Some [simp]: "map the (map Some vs) = vs"
  by (simp add: comp_def)

text \<open>
  The state after an operation on \<open>this\<close> that only rewrote the buffer of \<open>this\<close>, keeping
  the sequence length: what is preserved.
\<close>

lemma rewritten_buffer:
  assumes wf: "wf P w this" and dr: "data_region this (storages w this) = Some r"
      and gb: "get_buffer P w r = Some (map Some vs @ replicate k None)"
      and sto: "storages w' = storages (put_buffer w r (map Some vs' @ replicate k None))"
      and hp: "heap w' = heap (put_buffer w r (map Some vs' @ replicate k None))"
      and len: "length vs' = length vs" "length vs = unat (GetSize (storages w this))"
  shows "size_and_is_allocated (storages w' this) = size_and_is_allocated (storages w this)"
    and "MakeStorageView P this (storages w' this) = MakeStorageView P this (storages w this)"
    and "dom (heap w') = dom (heap w)"
    and "wf P w' this"
    and "elements P w' this = vs'"
    and "\<forall>i. i \<noteq> this \<longrightarrow> storages w' i = storages w i"
proof -
  let ?S = "map Some vs' @ replicate k None"
  have cong: "get_buffer P w' r = Some ?S"
    using get_buffer_cong [OF sto hp, of P r] by simp
  show 1: "size_and_is_allocated (storages w' this) = size_and_is_allocated (storages w this)"
    by (simp add: sto)
  have al: "GetIsAllocated (storages w' this) = GetIsAllocated (storages w this)"
    and gs: "GetSize (storages w' this) = GetSize (storages w this)"
    by (simp_all add: GetIsAllocated_def GetSize_def 1)
  from dr show 2: "MakeStorageView P this (storages w' this) = MakeStorageView P this (storages w this)"
  proof (cases rule: data_region_cases)
    case inlined
    then show ?thesis by (simp add: MakeStorageView_def al gs)
  next
    case (allocated a)
    then show ?thesis by (simp add: MakeStorageView_def al gs sto put_buffer.simps)
  qed
  from dr show "dom (heap w') = dom (heap w)"
  proof (cases rule: data_region_cases)
    case inlined
    then show ?thesis by (simp add: hp put_buffer.simps upd_storage_def)
  next
    case (allocated a)
    with gb have "heap w a \<noteq> None" by (simp add: get_buffer.simps)
    with allocated show ?thesis by (auto simp: hp put_buffer.simps)
  qed
  have lp: "live_prefix ?S (unat (GetSize (storages w this)))"
    using live_prefix_map_Some [of vs' k] len by simp
  from dr show "wf P w' this"
  proof (cases rule: data_region_cases)
    case inlined
    with wf gb have "length (map Some vs @ replicate k None) = N P"
      by (auto simp: wf_def Let_def get_buffer.simps split: Data.splits)
    with len have "length ?S = N P" by simp
    with inlined lp al gs cong show ?thesis
      by (simp add: wf_def Let_def del: length_append)
  next
    case (allocated a)
    with wf gb obtain c where d: "data (storages w this) = Allocated (Ptr (HeapBlock a) 0) c"
      and c: "N P < unat c" "length (map Some vs @ replicate k None) = unat c"
      and cm: "unat c \<le> max_size P"
      by (auto simp: wf_def Let_def get_buffer.simps GetAllocatedData_def
               split: Data.splits Pointer.splits region.splits option.splits)
    from c len have "length ?S = unat c" by simp
    with allocated lp al gs d c(1) cm show ?thesis
      by (simp add: wf_def Let_def sto hp put_buffer.simps del: length_append)
  qed
  have dr': "data_region this (storages w' this) = Some r"
    using dr
  proof (cases rule: data_region_cases)
    case inlined
    then show ?thesis by (simp add: data_region_def al)
  next
    case (allocated a)
    then show ?thesis by (simp add: data_region_def al sto put_buffer.simps)
  qed
  show "elements P w' this = vs'"
    using len by (simp add: elements_def dr' cong gs)
  show "\<forall>i. i \<noteq> this \<longrightarrow> storages w' i = storages w i"
    using dr by (cases rule: data_region_cases) (simp_all add: sto put_buffer.simps upd_storage_def)
qed




subsection \<open>The steps of the operations, on stable buffers\<close>

lemma DestroyElements_Normal:
  assumes "get_buffer P w r = Some xs" and "stable w r"
      and "DestroyElements P (Ptr r (int d)) n w = (Normal, w')"
  shows "(\<forall>j<unat n. d + j < length xs \<and> xs ! (d + j) \<noteq> None) \<and>
         w' = log_events (map (\<lambda>j. DestroyCall (Ptr r (int d + int j))) (rev [0..<unat n]))
                (put_buffer w r (fill xs d (replicate (unat n) None)))"
proof -
  from assms(3) have "DestroyElements_loop P (Ptr r (int d)) (unat n) w = (Normal, w')" by simp
  from DestroyElements_loop_Normal [OF assms(1) this]
  have 1: "\<forall>j<unat n. d + j < length xs \<and> xs ! (d + j) \<noteq> None"
    and 2: "w' = log_events (map (\<lambda>j. DestroyCall (Ptr r (int d + int j))) (rev [0..<unat n]))
                   (written (unat n) w r (fill xs d (replicate (unat n) None)))"
    by blast+
  have "written (unat n) w r (fill xs d (replicate (unat n) None))
        = put_buffer w r (fill xs d (replicate (unat n) None))"
    using assms(2,1) by (rule written_stable) simp
  with 1 2 show ?thesis by simp
qed

lemma ConstructElements_external_Normal:
  assumes "external vals" and "get_buffer P w r = Some xs" and "stable w r"
      and "ConstructElements P (Ptr r (int d)) vals n w = (Normal, vals', w')"
  shows "(0 < unat n \<longrightarrow> d + unat n \<le> length xs) \<and> external vals' \<and>
         (\<exists>vs. length vs = unat n \<and>
            w' = log_events (map (\<lambda>j. ConstructCall (Ptr r (int d + int j))) [0..<unat n])
                   (put_buffer w r (fill xs d (map Some vs))))"
proof -
  from assms(4) have "ConstructElements_loop P (Ptr r (int d)) vals 0 (unat n) w = (Normal, vals', w')"
    by (simp add: ConstructElements_def)
  from ConstructElements_loop_external_Normal [OF assms(1,2) this]
  obtain vs where 1: "0 < unat n \<longrightarrow> d + unat n \<le> length xs" "external vals'" "length vs = unat n"
    and 2: "w' = log_events (map (\<lambda>j. ConstructCall (Ptr r (int d + int j))) [0..<unat n])
                   (written (unat n) w r (fill xs d (map Some vs)))"
    by auto
  have "written (unat n) w r (fill xs d (map Some vs)) = put_buffer w r (fill xs d (map Some vs))"
    using assms(3,2) by (rule written_stable) (use 1(3) in simp)
  with 1 2 show ?thesis by auto
qed

lemma ConstructElements_move_Normal:
  assumes "rs \<noteq> rd" and "get_buffer P w rs = Some src" and "get_buffer P w rd = Some dst"
      and "stable w rs"
      and "ConstructElements P (Ptr rd (int d)) (MoveValueAdapter (Ptr rs (int s))) n w = (Normal, vals', w')"
  shows "(0 < unat n \<longrightarrow> d + unat n \<le> length dst \<and> s + unat n \<le> length src) \<and>
         vals' = MoveValueAdapter (Ptr rs (int (s + unat n))) \<and>
         (\<exists>vs. length vs = unat n \<and> map Some vs = take (unat n) (drop s src) \<and>
            (\<forall>v\<in>set vs. move_construct P v \<noteq> None) \<and>
            w' = log_events (map (\<lambda>j. ConstructCall (Ptr rd (int d + int j))) [0..<unat n])
                   (written (unat n) (put_buffer w rs (fill src s (map (Some \<circ> moved_from P) vs)))
                      rd (fill dst d (map (Some \<circ> moved_to P) vs))))"
proof -
  from assms(5) have "ConstructElements_loop P (Ptr rd (int d)) (MoveValueAdapter (Ptr rs (int s))) 0 (unat n) w = (Normal, vals', w')"
    by (simp add: ConstructElements_def)
  from ConstructElements_loop_move_Normal [OF assms(1,2,3) this]
  obtain vs where 1: "0 < unat n \<longrightarrow> d + unat n \<le> length dst \<and> s + unat n \<le> length src"
    "vals' = MoveValueAdapter (Ptr rs (int (s + unat n)))"
    "length vs = unat n" "map Some vs = take (unat n) (drop s src)" "\<forall>v\<in>set vs. move_construct P v \<noteq> None"
    and 2: "w' = log_events (map (\<lambda>j. ConstructCall (Ptr rd (int d + int j))) [0..<unat n])
                (written (unat n) (written (unat n) w rs (fill src s (map (Some \<circ> moved_from P) vs)))
                      rd (fill dst d (map (Some \<circ> moved_to P) vs)))"
    by auto
  have "written (unat n) w rs (fill src s (map (Some \<circ> moved_from P) vs))
        = put_buffer w rs (fill src s (map (Some \<circ> moved_from P) vs))"
    using assms(4,2) by (rule written_stable) (use 1(3) in simp)
  with 1 2 show ?thesis by auto
qed

subsection \<open>The packed size word\<close>

lemma GetSize_eq: "GetSize s = size_and_is_allocated s div 2"
  by (simp add: GetSize_def drop_bit_eq_div)

lemma GetIsAllocated_eq: "GetIsAllocated s = odd (size_and_is_allocated s)"
  by (simp add: GetIsAllocated_def and_one_eq mod_2_eq_odd)

lemma or_1_eq: "(x :: SizeType) OR 1 = (if even x then x + 1 else x)"
  by (simp add: or_one_eq)

lemma push_bit_1_eq: "push_bit 1 (n :: SizeType) = n * 2"
  by (simp add: push_bit_eq_mult)

lemma unat_times_2: "unat n < 2 ^ 63 \<Longrightarrow> unat ((n :: SizeType) * 2) = unat n * 2"
  by (subst unat_mult_lem [THEN iffD1]) simp_all

lemma unat_times_2_plus_1: "unat n < 2 ^ 63 \<Longrightarrow> unat ((n :: SizeType) * 2 + 1) = unat n * 2 + 1"
  by (subst unat_add_lem [THEN iffD1]) (simp_all add: unat_times_2)

lemma unat_div_2: "unat ((x :: SizeType) div 2) = unat x div 2"
  by (simp add: unat_div)

lemma times_2_div_2: "unat n < 2 ^ 63 \<Longrightarrow> ((n :: SizeType) * 2) div 2 = n"
  by (rule word_unat_eq_iff [THEN iffD2]) (simp add: unat_div_2 unat_times_2)

lemma times_2_plus_1_div_2: "unat n < 2 ^ 63 \<Longrightarrow> ((n :: SizeType) * 2 + 1) div 2 = n"
  by (rule word_unat_eq_iff [THEN iffD2]) (simp add: unat_div_2 unat_times_2_plus_1)

lemma even_unat: "even (unat (x :: SizeType)) = even x"
proof -
  have "even x \<longleftrightarrow> x mod 2 = 0" by (simp add: even_iff_mod_2_eq_zero)
  also have "\<dots> \<longleftrightarrow> unat (x mod 2) = 0" by (simp add: unat_eq_zero)
  also have "\<dots> \<longleftrightarrow> unat x mod 2 = 0" by (simp add: unat_mod)
  also have "\<dots> \<longleftrightarrow> even (unat x)" by (simp add: even_iff_mod_2_eq_zero)
  finally show ?thesis by simp
qed

lemma plus_1_div_2: "even (x :: SizeType) \<Longrightarrow> (x + 1) div 2 = x div 2"
proof -
  assume e: "even x"
  then obtain k where x: "x = 2 * k" by (rule evenE)
  have "unat x < 2 ^ 64" using unsigned_less [of x, where 'a = nat] by simp
  moreover have ev: "even (unat x)" using e by (simp add: even_unat)
  ultimately have "unat x + 1 < 2 ^ 64" by (cases "unat x = 2 ^ 64 - 1") auto
  then have "unat (x + 1) = unat x + 1" by (subst unat_add_lem [THEN iffD1]) simp_all
  with ev show ?thesis
    by (intro word_unat_eq_iff [THEN iffD2]) (simp add: unat_div_2)
qed

lemma GetSize_bound: "unat (GetSize s) < 2 ^ 63"
proof -
  have "unat (size_and_is_allocated s) < 2 ^ 64"
    using unsigned_less [of "size_and_is_allocated s", where 'a = nat] by simp
  then show ?thesis by (simp add: GetSize_eq unat_div_2)
qed

lemma GetSize_SetIsAllocated [simp]: "GetSize (SetIsAllocated s) = GetSize s"
  by (simp add: GetSize_eq SetIsAllocated_def or_1_eq plus_1_div_2)

lemma GetIsAllocated_SetIsAllocated [simp]: "GetIsAllocated (SetIsAllocated s)"
  by (simp add: GetIsAllocated_eq SetIsAllocated_def or_1_eq)

lemma SetAllocatedData_fields [simp]:
  "GetSize (SetAllocatedData p c s) = GetSize s"
  "GetIsAllocated (SetAllocatedData p c s) = GetIsAllocated s"
  "size_and_is_allocated (SetAllocatedData p c s) = size_and_is_allocated s"
  "allocator (SetAllocatedData p c s) = allocator s"
  "data (SetAllocatedData p c s) = Allocated p c"
  by (simp_all add: SetAllocatedData_def GetSize_def GetIsAllocated_def)

lemma SetIsAllocated_fields [simp]:
  "data (SetIsAllocated s) = data s"
  "allocator (SetIsAllocated s) = allocator s"
  by (simp_all add: SetIsAllocated_def)

lemma SetSize_fields [simp]:
  "GetIsAllocated (SetSize n s) = GetIsAllocated s"
  "data (SetSize n s) = data s"
  "allocator (SetSize n s) = allocator s"
  by (simp_all add: SetSize_def GetIsAllocated_eq push_bit_1_eq or_1_eq)

lemma GetSize_SetSize [simp]: "unat n < 2 ^ 63 \<Longrightarrow> GetSize (SetSize n s) = n"
  by (simp add: SetSize_def GetSize_eq push_bit_1_eq or_1_eq times_2_div_2 times_2_plus_1_div_2)

lemma SetAllocatedSize_fields [simp]:
  "GetIsAllocated (SetAllocatedSize n s)"
  "data (SetAllocatedSize n s) = data s"
  "allocator (SetAllocatedSize n s) = allocator s"
  "unat n < 2 ^ 63 \<Longrightarrow> GetSize (SetAllocatedSize n s) = n"
  by (simp_all add: SetAllocatedSize_def GetIsAllocated_eq GetSize_eq push_bit_1_eq or_1_eq times_2_plus_1_div_2)

lemma ComputeCapacity_ge: "r \<le> ComputeCapacity c r"
  by (simp add: ComputeCapacity_def)

subsection \<open>Giving up the old buffer\<close>

lemma unwind_not_Normal [simp]: "unwind ds w \<noteq> (Normal, w')"
proof (induction ds arbitrary: w)
  case Nil show ?case by simp
next
  case (Cons d ds)
  then show ?case by (auto split: prod.splits status.splits)
qed

lemma fill_prefix: "length ys = length vs \<Longrightarrow> fill (vs @ zs) 0 ys = ys @ zs"
  by (simp add: fill_def)

lemma fill_replicate_0: "length ys \<le> c \<Longrightarrow> fill (replicate c x) 0 ys = ys @ replicate (c - length ys) x"
  by (simp add: fill_def)

lemma inj_map_Some: "map Some xs = map Some ys \<Longrightarrow> xs = ys"
  by (simp add: inj_map_eq_map)

lemma take_map_Some_append: "length vs = n \<Longrightarrow> take n (map Some vs @ zs) = map Some vs"
  by simp

text \<open>
  \<open>DestroyElements\<close> on all the elements of the buffer of \<open>this\<close>, then
  \<open>DeallocateIfAllocated\<close>.
\<close>

lemma release_old:
  assumes dr: "data_region this (storages w this) = Some r"
      and gb: "get_buffer P w r = Some (map Some us @ replicate k None)" and st: "stable w r"
      and n: "length us = unat n"
      and cap: "\<forall>a. r = HeapBlock a \<longrightarrow> unat (GetAllocatedCapacity (storages w this)) = length us + k"
      and de: "DestroyElements P (Ptr r 0) n w = (Normal, w3)"
      and da: "DeallocateIfAllocated P this w3 = (Normal, w4)"
  shows "storages w4 = storages (put_buffer w r (replicate (length us + k) None)) \<and>
         heap w4 = (case r of HeapBlock a \<Rightarrow> (heap w)(a := None) | InlinedBuffer i \<Rightarrow> heap w) \<and>
         next_block w4 = next_block w \<and>
         trace w4 = trace w @ map (\<lambda>j. DestroyCall (Ptr r (int j))) (rev [0..<unat n])
            @ (case r of HeapBlock a \<Rightarrow> [DeallocateCall a (GetAllocatedCapacity (storages w this))]
               | InlinedBuffer i \<Rightarrow> [])"
proof -
  from de have de': "DestroyElements P (Ptr r (int 0)) n w = (Normal, w3)" by simp
  from DestroyElements_Normal [OF gb st de']
  have w3: "w3 = log_events (map (\<lambda>j. DestroyCall (Ptr r (int j))) (rev [0..<unat n]))
                   (put_buffer w r (fill (map Some us @ replicate k None) 0 (replicate (unat n) None)))"
    by simp
  have f: "fill (map Some us @ replicate k None) 0 (replicate (unat n) None) = replicate (length us + k) None"
    using n fill_prefix [of "replicate (unat n) None" "map Some us" "replicate k None"]
    by (simp add: replicate_add)
  note w3 = w3 [unfolded f]
  from dr show ?thesis
  proof (cases rule: data_region_cases)
    case inlined
    then have "\<not> GetIsAllocated (storages w3 this)"
      by (simp add: w3 GetIsAllocated_def)
    with da have "w4 = w3" by (simp add: DeallocateIfAllocated_def)
    with inlined show ?thesis
      by (simp add: w3 put_buffer.simps upd_storage_def)
  next
    case (allocated a)
    have s3: "storages w3 = storages w"
      by (simp add: w3 allocated put_buffer.simps)
    have h3: "heap w3 a = Some (replicate (length us + k) None)"
      by (simp add: w3 allocated put_buffer.simps)
    from cap allocated have c: "length (replicate (length us + k) (None :: 'a option)) = unat (GetAllocatedCapacity (storages w this))"
      by simp
    from da have "w4 = log_events [DeallocateCall a (GetAllocatedCapacity (storages w this))]
                        (w3\<lparr>heap := (heap w3)(a := None)\<rparr>)"
      using allocated deallocate_Ptr [OF h3 c, of P]
      by (simp add: DeallocateIfAllocated_def s3)
    with allocated show ?thesis
      by (simp add: w3 put_buffer.simps)
  qed
qed

subsection \<open>\<open>Reserve\<close>\<close>

lemma upd_storage_fields [simp]:
  "heap (upd_storage i f w) = heap w"
  "next_block (upd_storage i f w) = next_block w"
  "trace (upd_storage i f w) = trace w"
  "storages (upd_storage i f w) = (storages w)(i := f (storages w i))"
  by (simp_all add: upd_storage_def)

lemma storages_put_buffer:
  "storages (put_buffer w r xs)
   = (case r of InlinedBuffer i \<Rightarrow> (storages w)(i := (storages w i)\<lparr>data := Inlined xs\<rparr>)
      | HeapBlock a \<Rightarrow> storages w)"
  by (cases r) (simp_all add: put_buffer.simps)

lemma SetAllocatedData_data [simp]: "SetAllocatedData p c (s\<lparr>data := d\<rparr>) = SetAllocatedData p c s"
  by (simp add: SetAllocatedData_def)

lemma Reserve_stale:
  assumes sane: "sane P" and wf: "wf P w this" and stale: "stale w this"
      and big: "view_capacity (MakeStorageView P this (storages w this)) < requested_capacity"
      and run: "Reserve P this requested_capacity w = (Normal, w')"
  shows "elements P w this = []"
    and "\<not> max_size P < unat (ComputeCapacity (GetInlinedCapacity P) requested_capacity)"
    and "w' = upd_storage this (SetIsAllocated \<circ> SetAllocatedData (Ptr (HeapBlock (next_block w)) 0)
                (ComputeCapacity (GetInlinedCapacity P) requested_capacity))
               (log_events [AllocateCall (next_block w) (ComputeCapacity (GetInlinedCapacity P) requested_capacity)]
                 (w\<lparr>heap := (heap w)(next_block w \<mapsto>
                         replicate (unat (ComputeCapacity (GetInlinedCapacity P) requested_capacity)) None),
                    next_block := Suc (next_block w)\<rparr>))"
proof -
  from wf_buffer [OF sane wf] stale have el: "elements P w this = []"
    and sz: "unat (view_size (MakeStorageView P this (storages w this))) = 0"
    by (metis list.size(3))+
  show "elements P w this = []" by (rule el)
  from stale have al: "\<not> GetIsAllocated (storages w this)" by (simp add: stale_def)
  from sz have z: "GetSize (storages w this) = 0"
    by (simp add: unat_eq_0 MakeStorageView_def split: if_splits)
  have sv: "MakeStorageView P this (storages w this)
            = \<lparr>view_data = Ptr (InlinedBuffer this) 0, view_size = 0, view_capacity = GetInlinedCapacity P\<rparr>"
    by (simp add: MakeStorageView_def al GetInlinedData_def z)
  from big have big': "\<not> requested_capacity \<le> GetInlinedCapacity P"
    by (simp add: sv not_le)
  from run show ok: "\<not> max_size P < unat (ComputeCapacity (GetInlinedCapacity P) requested_capacity)"
    by (simp add: Reserve_def sv Let_def big' Allocate_def allocate_def split: if_splits)
  from run ok show "w' = upd_storage this (SetIsAllocated \<circ> SetAllocatedData (Ptr (HeapBlock (next_block w)) 0)
                (ComputeCapacity (GetInlinedCapacity P) requested_capacity))
               (log_events [AllocateCall (next_block w) (ComputeCapacity (GetInlinedCapacity P) requested_capacity)]
                 (w\<lparr>heap := (heap w)(next_block w \<mapsto>
                         replicate (unat (ComputeCapacity (GetInlinedCapacity P) requested_capacity)) None),
                    next_block := Suc (next_block w)\<rparr>))"
    by (simp add: Reserve_def sv Let_def big' Allocate_def allocate_def ConstructElements_def
                  DestroyElements_def DeallocateIfAllocated_def al log_event_eq
                  AcquireAllocatedData_def comp_def)
qed

lemma Reserve_Normal:
  assumes sane: "sane P" and wf: "wf P w this"
      and fresh: "heap w (next_block w) = None"
      and big: "view_capacity (MakeStorageView P this (storages w this)) < requested_capacity"
      and run: "Reserve P this requested_capacity w = (Normal, w')"
  obtains r where
    "data_region this (storages w this) = Some r"
    "\<forall>u\<in>set (elements P w this). move_construct P u \<noteq> None"
    "length (elements P w this)
       \<le> unat (ComputeCapacity (view_capacity (MakeStorageView P this (storages w this))) requested_capacity)"
    "\<not> max_size P < unat (ComputeCapacity (view_capacity (MakeStorageView P this (storages w this))) requested_capacity)"
    "storages w' = (storages w)(this := SetIsAllocated (SetAllocatedData (Ptr (HeapBlock (next_block w)) 0)
        (ComputeCapacity (view_capacity (MakeStorageView P this (storages w this))) requested_capacity)
        (storages w this)))"
    "heap w' = (case r of HeapBlock a \<Rightarrow> (heap w)(a := None) | InlinedBuffer i \<Rightarrow> heap w)
       (next_block w \<mapsto> map Some (map (moved_to P) (elements P w this))
          @ replicate (unat (ComputeCapacity (view_capacity (MakeStorageView P this (storages w this))) requested_capacity)
                       - length (elements P w this)) None)"
    "next_block w' = Suc (next_block w)"
    "trace w' = trace w
       @ AllocateCall (next_block w)
           (ComputeCapacity (view_capacity (MakeStorageView P this (storages w this))) requested_capacity)
       # map (\<lambda>j. ConstructCall (Ptr (HeapBlock (next_block w)) (int j))) [0..<length (elements P w this)]
       @ map (\<lambda>j. DestroyCall (Ptr r (int j))) (rev [0..<length (elements P w this)])
       @ (case r of HeapBlock a \<Rightarrow> [DeallocateCall a (view_capacity (MakeStorageView P this (storages w this)))]
          | InlinedBuffer i \<Rightarrow> [])"
proof (cases "stale w this")
  case True
  note rs = Reserve_stale [OF sane wf True big run]
  from True have al: "\<not> GetIsAllocated (storages w this)" by (simp add: stale_def)
  then have cap: "view_capacity (MakeStorageView P this (storages w this)) = GetInlinedCapacity P"
    by (simp add: MakeStorageView_def)
  show thesis
    by (rule that [of "InlinedBuffer this"])
       (simp_all add: rs cap data_region_def al)
next
  case False
  let ?sv = "MakeStorageView P this (storages w this)"
  let ?sz = "view_size ?sv" and ?cap = "view_capacity ?sv"
  let ?c = "ComputeCapacity ?cap requested_capacity"
  let ?nb = "next_block w"
  from wf_buffer [OF sane wf] obtain r vs where
    vd: "view_data ?sv = Ptr r 0" and dr: "data_region this (storages w this) = Some r"
    and st0: "\<not> stale w this \<longrightarrow> stable w r"
    and gb: "get_buffer P w r = Some (map Some vs @ replicate (unat ?cap - length vs) None)"
    and len: "length vs = unat ?sz" and le: "length vs \<le> unat ?cap" and el: "elements P w this = vs"
    and rc: "case r of HeapBlock a \<Rightarrow> GetIsAllocated (storages w this) \<and>
                  data (storages w this) = Allocated (Ptr (HeapBlock a) 0) ?cap
             | InlinedBuffer i \<Rightarrow> i = this \<and> \<not> GetIsAllocated (storages w this)"
    by blast
  from st0 False have st: "stable w r" by blast
  let ?k = "unat ?cap - length vs"
  let ?src = "map Some vs @ replicate ?k None"
  from big have nle: "\<not> requested_capacity \<le> ?cap" by simp
  have ok: "\<not> max_size P < unat ?c"
    using run nle by (auto simp: Reserve_def Let_def Allocate_def allocate_eq)
  let ?w1 = "log_events [AllocateCall ?nb ?c]
               (w\<lparr>heap := (heap w)(?nb \<mapsto> replicate (unat ?c) None), next_block := Suc ?nb\<rparr>)"
  let ?tx = "\<lparr>at_data = Ptr (HeapBlock ?nb) 0, at_capacity = ?c\<rparr>"
  obtain st2 mv w2 where ce: "ConstructElements P (Ptr (HeapBlock ?nb) 0) (MoveValueAdapter (Ptr r 0)) ?sz ?w1 = (st2, mv, w2)"
    by (metis prod_cases3)
  obtain st3 w3 where de: "DestroyElements P (Ptr r 0) ?sz w2 = (st3, w3)"
    by (metis prod.exhaust)
  obtain st4 w4 where da: "DeallocateIfAllocated P this w3 = (st4, w4)"
    by (metis prod.exhaust)
  have all: "st2 = Normal \<and> st3 = Normal \<and> st4 = Normal \<and>
             w' = upd_storage this (SetIsAllocated \<circ> AcquireAllocatedData ?tx) w4"
    using run nle ok ce de da
    by (auto simp: Reserve_def Let_def Allocate_def allocate_eq vd
             simp del: DestroyElements_Ptr unwind.simps split: status.splits)
  have ne: "r \<noteq> HeapBlock ?nb"
    using gb fresh by (cases r) (auto simp: get_buffer.simps)
  have g1r: "get_buffer P ?w1 r = Some ?src"
    using gb ne by (cases r) (simp_all add: get_buffer_heap_update get_buffer.simps)
  have g1n: "get_buffer P ?w1 (HeapBlock ?nb) = Some (replicate (unat ?c) None)"
    by (simp add: get_buffer.simps)
  have st1: "stable ?w1 r" using st by simp
  from ce all have ce': "ConstructElements P (Ptr (HeapBlock ?nb) (int 0)) (MoveValueAdapter (Ptr r (int 0))) ?sz ?w1 = (Normal, mv, w2)"
    by simp
  from ConstructElements_move_Normal [OF ne g1r g1n st1 ce']
  obtain vsm where b: "0 < unat ?sz \<longrightarrow> unat ?sz \<le> unat ?c"
    and lm: "length vsm = unat ?sz" and vsm: "map Some vsm = take (unat ?sz) ?src"
    and mv_ok: "\<forall>v\<in>set vsm. move_construct P v \<noteq> None"
    and w2: "w2 = log_events (map (\<lambda>j. ConstructCall (Ptr (HeapBlock ?nb) (int j))) [0..<unat ?sz])
                   (written (unat ?sz) (put_buffer ?w1 r (fill ?src 0 (map (Some \<circ> moved_from P) vsm)))
                      (HeapBlock ?nb) (fill (replicate (unat ?c) None) 0 (map (Some \<circ> moved_to P) vsm)))"
    by (auto simp: drop_0)
  have vsm_eq: "vsm = vs"
    using vsm unfolding take_map_Some_append [OF len] by (rule inj_map_Some)
  have lc: "length vs \<le> unat ?c" using b len by (cases "unat ?sz") auto
  let ?S = "map Some (map (moved_from P) vs) @ replicate ?k None"
  let ?D = "map Some (map (moved_to P) vs) @ replicate (unat ?c - length vs) None"
  have S: "fill ?src 0 (map (Some \<circ> moved_from P) vs) = ?S"
    using fill_prefix [of "map (Some \<circ> moved_from P) vs" "map Some vs" "replicate ?k None"] by simp
  have D: "fill (replicate (unat ?c) None) 0 (map (Some \<circ> moved_to P) vs) = ?D"
    using lc fill_replicate_0 [of "map (Some \<circ> moved_to P) vs" "unat ?c" None] by simp
  have wr: "written (unat ?sz) (put_buffer ?w1 r ?S) (HeapBlock ?nb) ?D = put_buffer (put_buffer ?w1 r ?S) (HeapBlock ?nb) ?D"
  proof (rule written_stable)
    show "stable (put_buffer ?w1 r ?S) (HeapBlock ?nb)" by (simp add: stable_def)
    show "get_buffer P (put_buffer ?w1 r ?S) (HeapBlock ?nb) = Some (replicate (unat ?c) None)"
      using g1n ne by simp
    show "unat ?sz = 0 \<Longrightarrow> ?D = replicate (unat ?c) None" using len by simp
  qed
  have w2': "w2 = log_events (map (\<lambda>j. ConstructCall (Ptr (HeapBlock ?nb) (int j))) [0..<unat ?sz])
                    (put_buffer (put_buffer ?w1 r ?S) (HeapBlock ?nb) ?D)"
    using w2 unfolding vsm_eq S D wr .
  have g2r: "get_buffer P w2 r = Some ?S" using ne by (simp add: w2')
  have st2: "stable w2 r" by (simp add: w2')
  have dr2: "data_region this (storages w2 this) = Some r"
    using dr by (cases rule: data_region_cases)
                (simp_all add: data_region_def GetIsAllocated_def w2' storages_put_buffer GetAllocatedData_def)
  have cap2: "\<forall>a. r = HeapBlock a \<longrightarrow> unat (GetAllocatedCapacity (storages w2 this)) = length (map (moved_from P) vs) + ?k"
    using rc le by (auto simp: w2' storages_put_buffer GetAllocatedCapacity_def)
  have n2: "length (map (moved_from P) vs) = unat ?sz" using len by simp
  from de da all have de2: "DestroyElements P (Ptr r 0) ?sz w2 = (Normal, w3)"
    and da2: "DeallocateIfAllocated P this w3 = (Normal, w4)" by simp_all
  have g2r': "get_buffer P w2 r = Some (map Some (map (moved_from P) vs) @ replicate ?k None)"
    using g2r by simp
  note ro = release_old [OF dr2 g2r' st2 n2 cap2 de2 da2]
  have capeq: "\<And>a. r = HeapBlock a \<Longrightarrow> GetAllocatedCapacity (storages w2 this) = ?cap"
    using rc by (auto simp: w2' storages_put_buffer GetAllocatedCapacity_def)
  have w': "w' = upd_storage this (SetIsAllocated \<circ> AcquireAllocatedData ?tx) w4"
    using all by simp
  have sto: "storages w' = (storages w)(this := SetIsAllocated (SetAllocatedData (Ptr (HeapBlock ?nb) 0) ?c (storages w this)))"
    using ro ne rc
    by (cases r) (auto simp: w' w2' storages_put_buffer AcquireAllocatedData_def)
  have hp: "heap w' = (case r of HeapBlock a \<Rightarrow> (heap w)(a := None) | InlinedBuffer i \<Rightarrow> heap w)(?nb \<mapsto> ?D)"
    using ro ne
    by (cases r) (auto simp: w' w2' heap_put_buffer put_buffer.simps fun_upd_twist)
  have nbk: "next_block w' = Suc ?nb"
    using ro by (simp add: w' w2')
  have tr: "trace w' = trace w @ AllocateCall ?nb ?c
       # map (\<lambda>j. ConstructCall (Ptr (HeapBlock ?nb) (int j))) [0..<length vs]
       @ map (\<lambda>j. DestroyCall (Ptr r (int j))) (rev [0..<length vs])
       @ (case r of HeapBlock a \<Rightarrow> [DeallocateCall a ?cap] | InlinedBuffer i \<Rightarrow> [])"
    using ro capeq by (cases r) (simp_all add: w' w2' len)
  show thesis
    using dr mv_ok lc ok sto hp nbk tr
    by (intro that [of r]) (simp_all add: el vsm_eq)
qed

lemma view_size_eq [simp]: "view_size (MakeStorageView P this s) = GetSize s"
  by (simp add: MakeStorageView_def)

lemma wf_allocated_intro:
  assumes "data (storages w this) = Allocated (Ptr (HeapBlock a) 0) c"
      and "GetIsAllocated (storages w this)" and "N P < unat c"
      and "heap w a = Some (map Some vs @ replicate k None)" and "length vs + k = unat c"
      and "length vs = unat (GetSize (storages w this))"
      and "unat c \<le> max_size P"
  shows "wf P w this" and "elements P w this = vs"
    and "MakeStorageView P this (storages w this)
         = \<lparr>view_data = Ptr (HeapBlock a) 0, view_size = GetSize (storages w this), view_capacity = c\<rparr>"
proof -
  have lp: "live_prefix (map Some vs @ replicate k None) (unat (GetSize (storages w this)))"
    using live_prefix_map_Some [of vs k] unfolding assms(6) .
  have ln: "length (map Some vs @ replicate k None) = unat c"
    using assms(5) by simp
  show "wf P w this"
    unfolding wf_def Let_def
    by (simp only: assms(1-4,7) Data.case Pointer.case region.case option.case lp ln simp_thms if_True)
  have "map the (take (unat (GetSize (storages w this))) (map Some vs @ replicate k None)) = vs"
    unfolding assms(6) [symmetric] by (rule map_the_take)
  then show "elements P w this = vs"
    by (simp add: elements_def data_region_def GetAllocatedData_def get_buffer.simps assms(1,2,4))
  show "MakeStorageView P this (storages w this)
         = \<lparr>view_data = Ptr (HeapBlock a) 0, view_size = GetSize (storages w this), view_capacity = c\<rparr>"
    by (simp add: MakeStorageView_def GetAllocatedData_def GetAllocatedCapacity_def assms(1,2))
qed



subsection \<open>\<open>ShrinkToFit\<close>\<close>

lemma and_minus_2: "(x :: SizeType) AND - 2 = (x div 2) * 2"
proof -
  have "unset_bit 0 x = x AND NOT (push_bit 0 1)"
    by (rule unset_bit_eq_and_not)
  also have "NOT (push_bit 0 1 :: SizeType) = - 2"
    by simp
  finally have "x AND - 2 = unset_bit 0 x" by simp
  also have "\<dots> = 2 * (x div 2)" by (rule unset_bit_0)
  finally show ?thesis by (simp add: mult.commute)
qed

lemma GetIsAllocated_UnsetIsAllocated [simp]: "\<not> GetIsAllocated (UnsetIsAllocated s)"
  by (simp add: GetIsAllocated_eq UnsetIsAllocated_def even_and_iff)

lemma GetSize_UnsetIsAllocated [simp]: "GetSize (UnsetIsAllocated s) = GetSize s"
proof -
  have "unat (size_and_is_allocated s div 2) < 2 ^ 63"
    using GetSize_bound [of s] by (simp add: GetSize_eq)
  then show ?thesis
    by (simp add: GetSize_eq UnsetIsAllocated_def and_minus_2 times_2_div_2)
qed

lemma UnsetIsAllocated_fields [simp]:
  "data (UnsetIsAllocated s) = data s" "allocator (UnsetIsAllocated s) = allocator s"
  by (simp_all add: UnsetIsAllocated_def)

lemma wf_allocated:
  assumes "wf P w this" and "GetIsAllocated (storages w this)"
  shows "N P < unat (GetAllocatedCapacity (storages w this))"
    and "unat (GetAllocatedCapacity (storages w this)) \<le> max_size P"
  using assms by (auto simp: wf_def Let_def GetAllocatedCapacity_def split: Data.splits)

lemma wf_allocated_buffer:
  assumes sane: "sane P" and wf: "wf P w this" and al: "GetIsAllocated (storages w this)"
  obtains a where
    "data (storages w this) = Allocated (Ptr (HeapBlock a) 0) (GetAllocatedCapacity (storages w this))"
    "heap w a = Some (map Some (elements P w this)
        @ replicate (unat (GetAllocatedCapacity (storages w this)) - length (elements P w this)) None)"
    "length (elements P w this) = unat (GetSize (storages w this))"
    "length (elements P w this) \<le> unat (GetAllocatedCapacity (storages w this))"
    "N P < unat (GetAllocatedCapacity (storages w this))"
    "unat (GetAllocatedCapacity (storages w this)) \<le> max_size P"
proof -
  let ?sv = "MakeStorageView P this (storages w this)"
  from al have cap: "view_capacity ?sv = GetAllocatedCapacity (storages w this)"
    and sz: "view_size ?sv = GetSize (storages w this)"
    by (simp_all add: MakeStorageView_def)
  from wf_buffer [OF sane wf] obtain r vs where
    gb: "get_buffer P w r = Some (map Some vs @ replicate (unat (view_capacity ?sv) - length vs) None)"
    and len: "length vs = unat (view_size ?sv)" and le: "length vs \<le> unat (view_capacity ?sv)"
    and el: "elements P w this = vs"
    and rc: "case r of HeapBlock a \<Rightarrow> GetIsAllocated (storages w this) \<and>
                  data (storages w this) = Allocated (Ptr (HeapBlock a) 0) (view_capacity ?sv)
             | InlinedBuffer i \<Rightarrow> i = this \<and> \<not> GetIsAllocated (storages w this)"
    by blast
  from rc al obtain a where r: "r = HeapBlock a"
    and d: "data (storages w this) = Allocated (Ptr (HeapBlock a) 0) (view_capacity ?sv)"
    by (cases r) auto
  show thesis
  proof (rule that [of a])
    show "heap w a = Some (map Some (elements P w this)
        @ replicate (unat (GetAllocatedCapacity (storages w this)) - length (elements P w this)) None)"
      using gb by (simp add: r el cap get_buffer.simps)
  qed (use d len le el cap sz wf_allocated [OF wf al] in simp_all)
qed

lemma ShrinkToFit_inline:
  assumes sane: "sane P" and wf: "wf P w this" and al: "GetIsAllocated (storages w this)"
      and small: "GetSize (storages w this) \<le> GetInlinedCapacity P"
      and run: "ShrinkToFit P this w = (Normal, w')"
  obtains a where
    "data (storages w this) = Allocated (Ptr (HeapBlock a) 0) (GetAllocatedCapacity (storages w this))"
    "\<forall>u\<in>set (elements P w this). move_construct P u \<noteq> None"
    "storages w' = (storages w)(this := UnsetIsAllocated
        (if elements P w this = [] then storages w this
         else (storages w this)\<lparr>data := Inlined (map Some (map (moved_to P) (elements P w this))
                 @ replicate (N P - length (elements P w this)) None)\<rparr>))"
    "heap w' = (heap w)(a := None)"
    "next_block w' = next_block w"
    "trace w' = trace w
       @ map (\<lambda>j. ConstructCall (Ptr (InlinedBuffer this) (int j))) [0..<length (elements P w this)]
       @ map (\<lambda>j. DestroyCall (Ptr (HeapBlock a) (int j))) (rev [0..<length (elements P w this)])
       @ [DeallocateCall a (GetAllocatedCapacity (storages w this))]"
proof -
  let ?s = "storages w this"
  let ?sz = "GetSize ?s" and ?c = "GetAllocatedCapacity ?s" and ?vs = "elements P w this"
  let ?k = "unat ?c - length ?vs"
  let ?src = "map Some ?vs @ replicate ?k None"
  from wf_allocated_buffer [OF sane wf al] obtain a where
    d: "data ?s = Allocated (Ptr (HeapBlock a) 0) ?c"
    and h: "heap w a = Some ?src"
    and len: "length ?vs = unat ?sz" and le: "length ?vs \<le> unat ?c" and Nc: "N P < unat ?c"
    by blast
  have szN: "unat ?sz \<le> N P"
    using small by (simp add: word_le_nat_alt unat_GetInlinedCapacity [OF sane])
  have ne: "?sz \<noteq> ?c" using szN Nc by auto
  have ngt: "\<not> GetInlinedCapacity P < ?sz" using small by simp
  have gad: "GetAllocatedData ?s = Ptr (HeapBlock a) 0" by (simp add: GetAllocatedData_def d)
  obtain st2 mv w2 where ce: "ConstructElements P (Ptr (InlinedBuffer this) 0) (MoveValueAdapter (Ptr (HeapBlock a) 0)) ?sz w = (st2, mv, w2)"
    by (metis prod_cases3)
  obtain st3 w3 where de: "DestroyElements P (Ptr (HeapBlock a) 0) ?sz w2 = (st3, w3)"
    by (metis prod.exhaust)
  obtain st4 w4 where da: "deallocate P (Ptr (HeapBlock a) 0) ?c w3 = (st4, w4)"
    by (metis prod.exhaust)
  have all: "st2 = Normal \<and> st3 = Normal \<and> st4 = Normal \<and> w' = upd_storage this UnsetIsAllocated w4"
    using run al ne ngt ce de da
    by (auto simp: ShrinkToFit_def Let_def gad GetInlinedData_def DidAllocate_def AllocationTransaction_init_def
             simp del: DestroyElements_Ptr unwind.simps split: status.splits)
  have gbs: "get_buffer P w (HeapBlock a) = Some ?src" using h by (simp add: get_buffer.simps)
  have gbd: "get_buffer P w (InlinedBuffer this) = Some (replicate (N P) None)"
    by (simp add: get_buffer.simps d)
  have sts: "stable w (HeapBlock a)" by (simp add: stable_def)
  have nerd: "HeapBlock a \<noteq> InlinedBuffer this" by simp
  from ce all have ce': "ConstructElements P (Ptr (InlinedBuffer this) (int 0)) (MoveValueAdapter (Ptr (HeapBlock a) (int 0))) ?sz w = (Normal, mv, w2)"
    by simp
  from ConstructElements_move_Normal [OF nerd gbs gbd sts ce']
  obtain vsm where lm: "length vsm = unat ?sz" and vsm: "map Some vsm = take (unat ?sz) ?src"
    and mv_ok: "\<forall>v\<in>set vsm. move_construct P v \<noteq> None"
    and w2: "w2 = log_events (map (\<lambda>j. ConstructCall (Ptr (InlinedBuffer this) (int j))) [0..<unat ?sz])
                   (written (unat ?sz) (put_buffer w (HeapBlock a) (fill ?src 0 (map (Some \<circ> moved_from P) vsm)))
                      (InlinedBuffer this) (fill (replicate (N P) None) 0 (map (Some \<circ> moved_to P) vsm)))"
    by (auto simp: drop_0)
  have vsm_eq: "vsm = ?vs"
    using vsm unfolding take_map_Some_append [OF len] by (rule inj_map_Some)
  let ?S = "map Some (map (moved_from P) ?vs) @ replicate ?k None"
  let ?D = "map Some (map (moved_to P) ?vs) @ replicate (N P - length ?vs) None"
  have S: "fill ?src 0 (map (Some \<circ> moved_from P) ?vs) = ?S"
    using fill_prefix [of "map (Some \<circ> moved_from P) ?vs" "map Some ?vs" "replicate ?k None"] by simp
  have D: "fill (replicate (N P) None) 0 (map (Some \<circ> moved_to P) ?vs) = ?D"
    using szN len fill_replicate_0 [of "map (Some \<circ> moved_to P) ?vs" "N P" None] by simp
  let ?w2 = "written (unat ?sz) (put_buffer w (HeapBlock a) ?S) (InlinedBuffer this) ?D"
  have w2': "w2 = log_events (map (\<lambda>j. ConstructCall (Ptr (InlinedBuffer this) (int j))) [0..<unat ?sz]) ?w2"
    using w2 unfolding vsm_eq S D .
  have g2: "get_buffer P w2 (HeapBlock a) = Some ?S"
    by (simp add: w2' get_buffer_written)
  have st2: "stable w2 (HeapBlock a)" by (simp add: stable_def)
  from de all have de': "DestroyElements P (Ptr (HeapBlock a) (int 0)) ?sz w2 = (Normal, w3)" by simp
  from DestroyElements_Normal [OF g2 st2 de']
  have w3: "w3 = log_events (map (\<lambda>j. DestroyCall (Ptr (HeapBlock a) (int j))) (rev [0..<unat ?sz]))
                   (put_buffer w2 (HeapBlock a) (fill ?S 0 (replicate (unat ?sz) None)))"
    by simp
  have f: "fill ?S 0 (replicate (unat ?sz) None) = replicate (unat ?c) None"
    using len le fill_prefix [of "replicate (unat ?sz) None" "map Some (map (moved_from P) ?vs)" "replicate ?k None"]
    by (simp flip: replicate_add)
  note w3 = w3 [unfolded f]
  have h3: "heap w3 a = Some (replicate (unat ?c) None)"
    by (simp add: w3 put_buffer.simps)
  have c3: "length (replicate (unat ?c) (None :: 'a option)) = unat ?c" by simp
  from da all deallocate_Ptr [OF h3 c3, of P]
  have w4: "w4 = log_events [DeallocateCall a ?c] (w3\<lparr>heap := (heap w3)(a := None)\<rparr>)"
    by simp
  have w': "w' = upd_storage this UnsetIsAllocated w4" using all by simp
  have e: "(?vs = []) = (unat ?sz = 0)" using len by auto
  show thesis
  proof (rule that [of a])
    show "data ?s = Allocated (Ptr (HeapBlock a) 0) ?c" by (rule d)
    show "\<forall>u\<in>set ?vs. move_construct P u \<noteq> None" using mv_ok by (simp add: vsm_eq)
    show "storages w' = (storages w)(this := UnsetIsAllocated
        (if ?vs = [] then ?s else ?s\<lparr>data := Inlined ?D\<rparr>))"
      by (simp add: w' w4 w3 w2' e written_def put_buffer.simps upd_storage_def)
    show "heap w' = (heap w)(a := None)"
      by (simp add: w' w4 w3 w2' written_def put_buffer.simps upd_storage_def)
    show "next_block w' = next_block w"
      by (simp add: w' w4 w3 w2')
    show "trace w' = trace w
       @ map (\<lambda>j. ConstructCall (Ptr (InlinedBuffer this) (int j))) [0..<length ?vs]
       @ map (\<lambda>j. DestroyCall (Ptr (HeapBlock a) (int j))) (rev [0..<length ?vs])
       @ [DeallocateCall a ?c]"
      by (simp add: w' w4 w3 w2' len)
  qed
qed

lemma ShrinkToFit_heap:
  assumes sane: "sane P" and wf: "wf P w this" and al: "GetIsAllocated (storages w this)"
      and fresh: "heap w (next_block w) = None"
      and big: "GetInlinedCapacity P < GetSize (storages w this)"
      and ne: "GetSize (storages w this) \<noteq> GetAllocatedCapacity (storages w this)"
      and run: "ShrinkToFit P this w = (Normal, w')"
  obtains a where
    "data (storages w this) = Allocated (Ptr (HeapBlock a) 0) (GetAllocatedCapacity (storages w this))"
    "\<forall>u\<in>set (elements P w this). move_construct P u \<noteq> None"
    "\<not> max_size P < unat (GetSize (storages w this))"
    "storages w' = (storages w)(this := SetAllocatedData (Ptr (HeapBlock (next_block w)) 0)
                       (GetSize (storages w this)) (storages w this))"
    "heap w' = (heap w)(a := None, next_block w \<mapsto> map Some (map (moved_to P) (elements P w this)))"
    "next_block w' = Suc (next_block w)"
    "trace w' = trace w
       @ AllocateCall (next_block w) (GetSize (storages w this))
       # map (\<lambda>j. ConstructCall (Ptr (HeapBlock (next_block w)) (int j))) [0..<length (elements P w this)]
       @ map (\<lambda>j. DestroyCall (Ptr (HeapBlock a) (int j))) (rev [0..<length (elements P w this)])
       @ [DeallocateCall a (GetAllocatedCapacity (storages w this))]"
proof -
  let ?s = "storages w this"
  let ?sz = "GetSize ?s" and ?c = "GetAllocatedCapacity ?s" and ?vs = "elements P w this"
  let ?k = "unat ?c - length ?vs"
  let ?src = "map Some ?vs @ replicate ?k None"
  let ?nb = "next_block w"
  from wf_allocated_buffer [OF sane wf al] obtain a where
    d: "data ?s = Allocated (Ptr (HeapBlock a) 0) ?c"
    and h: "heap w a = Some ?src"
    and len: "length ?vs = unat ?sz" and le: "length ?vs \<le> unat ?c" and Nc: "N P < unat ?c"
    by blast
  have gad: "GetAllocatedData ?s = Ptr (HeapBlock a) 0" by (simp add: GetAllocatedData_def d)
  have ok: "\<not> max_size P < unat ?sz"
    using run al ne big by (auto simp: ShrinkToFit_def Let_def Allocate_def allocate_eq)
  let ?w1 = "log_events [AllocateCall ?nb ?sz]
               (w\<lparr>heap := (heap w)(?nb \<mapsto> replicate (unat ?sz) None), next_block := Suc ?nb\<rparr>)"
  let ?tx = "\<lparr>at_data = Ptr (HeapBlock ?nb) 0, at_capacity = ?sz\<rparr>"
  obtain st2 mv w2 where ce: "ConstructElements P (Ptr (HeapBlock ?nb) 0) (MoveValueAdapter (Ptr (HeapBlock a) 0)) ?sz ?w1 = (st2, mv, w2)"
    by (metis prod_cases3)
  obtain st3 w3 where de: "DestroyElements P (Ptr (HeapBlock a) 0) ?sz w2 = (st3, w3)"
    by (metis prod.exhaust)
  obtain st4 w4 where da: "deallocate P (Ptr (HeapBlock a) 0) ?c w3 = (st4, w4)"
    by (metis prod.exhaust)
  have all: "st2 = Normal \<and> st3 = Normal \<and> st4 = Normal \<and>
             w' = upd_storage this (AcquireAllocatedData ?tx) w4"
    using run al ne big ok ce de da
    by (auto simp: ShrinkToFit_def Let_def Allocate_def allocate_eq gad DidAllocate_def
             simp del: DestroyElements_Ptr unwind.simps split: status.splits)
  have nab: "a \<noteq> ?nb" using h fresh by auto
  then have nerd: "HeapBlock a \<noteq> HeapBlock ?nb" by simp
  have g1s: "get_buffer P ?w1 (HeapBlock a) = Some ?src"
    using h nab by (simp add: get_buffer.simps)
  have g1n: "get_buffer P ?w1 (HeapBlock ?nb) = Some (replicate (unat ?sz) None)"
    by (simp add: get_buffer.simps)
  have st1: "stable ?w1 (HeapBlock a)" by (simp add: stable_def)
  from ce all have ce': "ConstructElements P (Ptr (HeapBlock ?nb) (int 0)) (MoveValueAdapter (Ptr (HeapBlock a) (int 0))) ?sz ?w1 = (Normal, mv, w2)"
    by simp
  from ConstructElements_move_Normal [OF nerd g1s g1n st1 ce']
  obtain vsm where lm: "length vsm = unat ?sz" and vsm: "map Some vsm = take (unat ?sz) ?src"
    and mv_ok: "\<forall>v\<in>set vsm. move_construct P v \<noteq> None"
    and w2: "w2 = log_events (map (\<lambda>j. ConstructCall (Ptr (HeapBlock ?nb) (int j))) [0..<unat ?sz])
                   (written (unat ?sz) (put_buffer ?w1 (HeapBlock a) (fill ?src 0 (map (Some \<circ> moved_from P) vsm)))
                      (HeapBlock ?nb) (fill (replicate (unat ?sz) None) 0 (map (Some \<circ> moved_to P) vsm)))"
    by (auto simp: drop_0)
  have vsm_eq: "vsm = ?vs"
    using vsm unfolding take_map_Some_append [OF len] by (rule inj_map_Some)
  let ?S = "map Some (map (moved_from P) ?vs) @ replicate ?k None"
  let ?D = "map Some (map (moved_to P) ?vs)"
  have S: "fill ?src 0 (map (Some \<circ> moved_from P) ?vs) = ?S"
    using fill_prefix [of "map (Some \<circ> moved_from P) ?vs" "map Some ?vs" "replicate ?k None"] by simp
  have D: "fill (replicate (unat ?sz) None) 0 (map (Some \<circ> moved_to P) ?vs) = ?D"
    using len fill_replicate_0 [of "map (Some \<circ> moved_to P) ?vs" "unat ?sz" None] by simp
  have wr: "written (unat ?sz) (put_buffer ?w1 (HeapBlock a) ?S) (HeapBlock ?nb) ?D
            = put_buffer (put_buffer ?w1 (HeapBlock a) ?S) (HeapBlock ?nb) ?D"
  proof (rule written_stable)
    show "stable (put_buffer ?w1 (HeapBlock a) ?S) (HeapBlock ?nb)" by (simp add: stable_def)
    show "get_buffer P (put_buffer ?w1 (HeapBlock a) ?S) (HeapBlock ?nb) = Some (replicate (unat ?sz) None)"
      using g1n nab by simp
    show "unat ?sz = 0 \<Longrightarrow> ?D = replicate (unat ?sz) None" using len by simp
  qed
  have w2': "w2 = log_events (map (\<lambda>j. ConstructCall (Ptr (HeapBlock ?nb) (int j))) [0..<unat ?sz])
                    (put_buffer (put_buffer ?w1 (HeapBlock a) ?S) (HeapBlock ?nb) ?D)"
    using w2 unfolding vsm_eq S D wr .
  have g2: "get_buffer P w2 (HeapBlock a) = Some ?S" using nab by (simp add: w2')
  have st2: "stable w2 (HeapBlock a)" by (simp add: stable_def)
  from de all have de': "DestroyElements P (Ptr (HeapBlock a) (int 0)) ?sz w2 = (Normal, w3)" by simp
  from DestroyElements_Normal [OF g2 st2 de']
  have w3: "w3 = log_events (map (\<lambda>j. DestroyCall (Ptr (HeapBlock a) (int j))) (rev [0..<unat ?sz]))
                   (put_buffer w2 (HeapBlock a) (fill ?S 0 (replicate (unat ?sz) None)))"
    by simp
  have f: "fill ?S 0 (replicate (unat ?sz) None) = replicate (unat ?c) None"
    using len le fill_prefix [of "replicate (unat ?sz) None" "map Some (map (moved_from P) ?vs)" "replicate ?k None"]
    by (simp flip: replicate_add)
  note w3 = w3 [unfolded f]
  have h3: "heap w3 a = Some (replicate (unat ?c) None)"
    by (simp add: w3 put_buffer.simps)
  have c3: "length (replicate (unat ?c) (None :: 'a option)) = unat ?c" by simp
  from da all deallocate_Ptr [OF h3 c3, of P]
  have w4: "w4 = log_events [DeallocateCall a ?c] (w3\<lparr>heap := (heap w3)(a := None)\<rparr>)"
    by simp
  have w': "w' = upd_storage this (AcquireAllocatedData ?tx) w4" using all by simp
  show thesis
  proof (rule that [of a])
    show "data ?s = Allocated (Ptr (HeapBlock a) 0) ?c" by (rule d)
    show "\<forall>u\<in>set ?vs. move_construct P u \<noteq> None" using mv_ok by (simp add: vsm_eq)
    show "\<not> max_size P < unat ?sz" by (rule ok)
    show "storages w' = (storages w)(this := SetAllocatedData (Ptr (HeapBlock ?nb) 0) ?sz ?s)"
      by (simp add: w' w4 w3 w2' put_buffer.simps AcquireAllocatedData_def)
    show "heap w' = (heap w)(a := None, ?nb \<mapsto> ?D)"
      using nab by (auto simp: w' w4 w3 w2' put_buffer.simps fun_upd_twist)
    show "next_block w' = Suc ?nb"
      by (simp add: w' w4 w3 w2')
    show "trace w' = trace w
       @ AllocateCall ?nb ?sz
       # map (\<lambda>j. ConstructCall (Ptr (HeapBlock ?nb) (int j))) [0..<length ?vs]
       @ map (\<lambda>j. DestroyCall (Ptr (HeapBlock a) (int j))) (rev [0..<length ?vs])
       @ [DeallocateCall a ?c]"
      by (simp add: w' w4 w3 w2' len)
  qed
qed

lemma wf_inlined_intro:
  assumes "\<not> GetIsAllocated (storages w this)"
      and "get_buffer P w (InlinedBuffer this) = Some (map Some vs @ replicate k None)"
      and "length vs + k = N P"
      and "length vs = unat (GetSize (storages w this))"
  shows "wf P w this" and "elements P w this = vs"
    and "MakeStorageView P this (storages w this)
         = \<lparr>view_data = Ptr (InlinedBuffer this) 0, view_size = GetSize (storages w this),
            view_capacity = GetInlinedCapacity P\<rparr>"
proof -
  have lp: "live_prefix (map Some vs @ replicate k None) (unat (GetSize (storages w this)))"
    using live_prefix_map_Some [of vs k] unfolding assms(4) .
  have ln: "length (map Some vs @ replicate k None) = N P"
    using assms(3) by simp
  show "wf P w this"
    unfolding wf_def Let_def
    by (simp only: assms(1,2) option.case lp ln simp_thms if_False)
  have "map the (take (unat (GetSize (storages w this))) (map Some vs @ replicate k None)) = vs"
    unfolding assms(4) [symmetric] by (rule map_the_take)
  then show "elements P w this = vs"
    by (simp add: elements_def data_region_def assms(1,2))
  show "MakeStorageView P this (storages w this)
         = \<lparr>view_data = Ptr (InlinedBuffer this) 0, view_size = GetSize (storages w this),
            view_capacity = GetInlinedCapacity P\<rparr>"
    by (simp add: MakeStorageView_def GetInlinedData_def assms(1))
qed

text \<open>
  C5: \<open>ShrinkToFit\<close> on an allocated, well-formed \<open>Storage\<close>, when it succeeds. If the size
  is at most \<open>N\<close>, the elements are move-constructed into the inline buffer, in order, the
  heap block is deallocated and the \<open>Storage\<close> is inline again. Otherwise the \<open>Storage\<close>
  stays allocated with a block whose capacity is exactly the size: the block it had when
  the capacity was the size already (nothing is touched then), else a new block, into
  which the elements are move-constructed in order, the old block being deallocated. The
  size never changes, and the element values are those of the move constructions: with a
  move constructor that keeps the value the sequence is the same.
\<close>

theorem ShrinkToFit_spec:
  "sane P \<and> wf P w this \<and> GetIsAllocated (storages w this) \<and> heap w (next_block w) = None \<and>
   ShrinkToFit P this w = (Normal, w')
   \<longrightarrow> wf P w' this \<and>
       GetSize (storages w' this) = GetSize (storages w this) \<and>
       (\<forall>i. i \<noteq> this \<longrightarrow> storages w' i = storages w i) \<and>
       (\<exists>a. GetAllocatedData (storages w this) = Ptr (HeapBlock a) 0 \<and>
          (if GetSize (storages w this) \<le> GetInlinedCapacity P
           then \<not> GetIsAllocated (storages w' this) \<and>
                MakeStorageView P this (storages w' this)
                  = \<lparr>view_data = Ptr (InlinedBuffer this) 0, view_size = GetSize (storages w this),
                     view_capacity = GetInlinedCapacity P\<rparr> \<and>
                elements P w' this = map (moved_to P) (elements P w this) \<and>
                heap w' = (heap w)(a := None) \<and>
                trace w' = trace w
                  @ map (\<lambda>j. ConstructCall (Ptr (InlinedBuffer this) (int j))) [0..<length (elements P w this)]
                  @ map (\<lambda>j. DestroyCall (Ptr (HeapBlock a) (int j))) (rev [0..<length (elements P w this)])
                  @ [DeallocateCall a (GetAllocatedCapacity (storages w this))]
           else GetIsAllocated (storages w' this) \<and>
                GetAllocatedCapacity (storages w' this) = GetSize (storages w this) \<and>
                (if GetSize (storages w this) = GetAllocatedCapacity (storages w this) then w' = w
                 else MakeStorageView P this (storages w' this)
                        = \<lparr>view_data = Ptr (HeapBlock (next_block w)) 0, view_size = GetSize (storages w this),
                           view_capacity = GetSize (storages w this)\<rparr> \<and>
                      elements P w' this = map (moved_to P) (elements P w this) \<and>
                      heap w' = (heap w)(a := None,
                                   next_block w \<mapsto> map Some (map (moved_to P) (elements P w this))) \<and>
                      trace w' = trace w
                        @ AllocateCall (next_block w) (GetSize (storages w this))
                        # map (\<lambda>j. ConstructCall (Ptr (HeapBlock (next_block w)) (int j)))
                            [0..<length (elements P w this)]
                        @ map (\<lambda>j. DestroyCall (Ptr (HeapBlock a) (int j))) (rev [0..<length (elements P w this)])
                        @ [DeallocateCall a (GetAllocatedCapacity (storages w this))]))) \<and>
       ((\<forall>u\<in>set (elements P w this). moved_to P u = u) \<longrightarrow> elements P w' this = elements P w this)"
proof
  let ?s = "storages w this"
  let ?sz = "GetSize ?s" and ?c = "GetAllocatedCapacity ?s" and ?vs = "elements P w this"
  let ?nb = "next_block w"
  assume "sane P \<and> wf P w this \<and> GetIsAllocated ?s \<and> heap w ?nb = None \<and> ShrinkToFit P this w = (Normal, w')"
  then have sane: "sane P" and wf: "wf P w this" and al: "GetIsAllocated ?s" and fresh: "heap w ?nb = None"
    and run: "ShrinkToFit P this w = (Normal, w')"
    by simp_all
  from wf_allocated_buffer [OF sane wf al] obtain a0 where
    d0: "data ?s = Allocated (Ptr (HeapBlock a0) 0) ?c"
    and len: "length ?vs = unat ?sz" and Nc: "N P < unat ?c"
    by blast
  have gad: "GetAllocatedData ?s = Ptr (HeapBlock a0) 0" by (simp add: GetAllocatedData_def d0)
  have same: "(\<forall>u\<in>set ?vs. moved_to P u = u) \<longrightarrow> map (moved_to P) ?vs = ?vs"
    by (simp add: map_idI)
  consider (inline) "?sz \<le> GetInlinedCapacity P"
    | (kept) "\<not> ?sz \<le> GetInlinedCapacity P" "?sz = ?c"
    | (heap) "\<not> ?sz \<le> GetInlinedCapacity P" "?sz \<noteq> ?c"
    by blast
  then show "wf P w' this \<and>
       GetSize (storages w' this) = ?sz \<and>
       (\<forall>i. i \<noteq> this \<longrightarrow> storages w' i = storages w i) \<and>
       (\<exists>a. GetAllocatedData ?s = Ptr (HeapBlock a) 0 \<and>
          (if ?sz \<le> GetInlinedCapacity P
           then \<not> GetIsAllocated (storages w' this) \<and>
                MakeStorageView P this (storages w' this)
                  = \<lparr>view_data = Ptr (InlinedBuffer this) 0, view_size = ?sz,
                     view_capacity = GetInlinedCapacity P\<rparr> \<and>
                elements P w' this = map (moved_to P) ?vs \<and>
                heap w' = (heap w)(a := None) \<and>
                trace w' = trace w
                  @ map (\<lambda>j. ConstructCall (Ptr (InlinedBuffer this) (int j))) [0..<length ?vs]
                  @ map (\<lambda>j. DestroyCall (Ptr (HeapBlock a) (int j))) (rev [0..<length ?vs])
                  @ [DeallocateCall a ?c]
           else GetIsAllocated (storages w' this) \<and>
                GetAllocatedCapacity (storages w' this) = ?sz \<and>
                (if ?sz = ?c then w' = w
                 else MakeStorageView P this (storages w' this)
                        = \<lparr>view_data = Ptr (HeapBlock ?nb) 0, view_size = ?sz, view_capacity = ?sz\<rparr> \<and>
                      elements P w' this = map (moved_to P) ?vs \<and>
                      heap w' = (heap w)(a := None, ?nb \<mapsto> map Some (map (moved_to P) ?vs)) \<and>
                      trace w' = trace w
                        @ AllocateCall ?nb ?sz
                        # map (\<lambda>j. ConstructCall (Ptr (HeapBlock ?nb) (int j))) [0..<length ?vs]
                        @ map (\<lambda>j. DestroyCall (Ptr (HeapBlock a) (int j))) (rev [0..<length ?vs])
                        @ [DeallocateCall a ?c]))) \<and>
       ((\<forall>u\<in>set ?vs. moved_to P u = u) \<longrightarrow> elements P w' this = ?vs)"
  proof cases
    case inline
    from ShrinkToFit_inline [OF sane wf al inline run] obtain a where
      d: "data ?s = Allocated (Ptr (HeapBlock a) 0) ?c"
      and sto: "storages w' = (storages w)(this := UnsetIsAllocated
          (if ?vs = [] then ?s
           else ?s\<lparr>data := Inlined (map Some (map (moved_to P) ?vs) @ replicate (N P - length ?vs) None)\<rparr>))"
      and hp: "heap w' = (heap w)(a := None)"
      and tr: "trace w' = trace w
         @ map (\<lambda>j. ConstructCall (Ptr (InlinedBuffer this) (int j))) [0..<length ?vs]
         @ map (\<lambda>j. DestroyCall (Ptr (HeapBlock a) (int j))) (rev [0..<length ?vs])
         @ [DeallocateCall a ?c]"
      by blast
    from d d0 have a: "a = a0" by simp
    have szN: "length ?vs \<le> N P"
      using inline len by (simp add: word_le_nat_alt unat_GetInlinedCapacity [OF sane])
    have nal: "\<not> GetIsAllocated (storages w' this)" by (simp add: sto)
    have "GetSize (storages w' this)
          = GetSize (if ?vs = [] then ?s
                     else ?s\<lparr>data := Inlined (map Some (map (moved_to P) ?vs) @ replicate (N P - length ?vs) None)\<rparr>)"
      by (simp only: sto fun_upd_same GetSize_UnsetIsAllocated)
    also have "\<dots> = ?sz" by (simp add: GetSize_def)
    finally have gs: "GetSize (storages w' this) = ?sz" .
    have gb: "get_buffer P w' (InlinedBuffer this)
              = Some (map Some (map (moved_to P) ?vs) @ replicate (N P - length ?vs) None)"
      by (simp add: get_buffer.simps sto d)
    have l1: "length (map (moved_to P) ?vs) + (N P - length ?vs) = N P" using szN by simp
    have l2: "length (map (moved_to P) ?vs) = unat (GetSize (storages w' this))" using len gs by simp
    note intro = wf_inlined_intro [OF nal gb l1 l2]
    from intro(1) intro(2) intro(3) gs nal hp tr same show ?thesis
      by (simp add: inline gad a sto)
  next
    case kept
    with run al have "w' = w" by (simp add: ShrinkToFit_def Let_def)
    with kept wf al gad show ?thesis by simp
  next
    case heap
    from heap(1) have big: "GetInlinedCapacity P < ?sz" by simp
    from ShrinkToFit_heap [OF sane wf al fresh big heap(2) run] obtain a where
      d: "data ?s = Allocated (Ptr (HeapBlock a) 0) ?c"
      and ok: "\<not> max_size P < unat ?sz"
      and sto: "storages w' = (storages w)(this := SetAllocatedData (Ptr (HeapBlock ?nb) 0) ?sz ?s)"
      and hp: "heap w' = (heap w)(a := None, ?nb \<mapsto> map Some (map (moved_to P) ?vs))"
      and tr: "trace w' = trace w
         @ AllocateCall ?nb ?sz
         # map (\<lambda>j. ConstructCall (Ptr (HeapBlock ?nb) (int j))) [0..<length ?vs]
         @ map (\<lambda>j. DestroyCall (Ptr (HeapBlock a) (int j))) (rev [0..<length ?vs])
         @ [DeallocateCall a ?c]"
      by blast
    from d d0 have a: "a = a0" by simp
    have d': "data (storages w' this) = Allocated (Ptr (HeapBlock ?nb) 0) ?sz"
      and al': "GetIsAllocated (storages w' this)"
      and gs: "GetSize (storages w' this) = ?sz"
      using al by (simp_all add: sto)
    have Ns: "N P < unat ?sz"
      using big by (simp add: word_less_nat_alt unat_GetInlinedCapacity [OF sane])
    have h': "heap w' ?nb = Some (map Some (map (moved_to P) ?vs) @ replicate 0 None)"
      by (simp add: hp)
    have l1: "length (map (moved_to P) ?vs) + 0 = unat ?sz" using len by simp
    have l2: "length (map (moved_to P) ?vs) = unat (GetSize (storages w' this))" using len gs by simp
    have cm: "unat ?sz \<le> max_size P" using ok by simp
    note intro = wf_allocated_intro [OF d' al' Ns h' l1 l2 cm]
    have gc: "GetAllocatedCapacity (storages w' this) = ?sz"
      by (simp add: GetAllocatedCapacity_def d')
    have others: "\<forall>i. i \<noteq> this \<longrightarrow> storages w' i = storages w i" by (simp add: sto)
    from intro(1) intro(2) intro(3) gs gc al' hp tr same others show ?thesis
      by (simp add: heap gad a)
  qed
qed

theorem ShrinkToFit_spec_witness:
  "sane example_instance \<and>
   wf example_instance erased_world 0 \<and> GetIsAllocated (storages erased_world 0) \<and>
   heap erased_world (next_block erased_world) = None \<and>
   fst (ShrinkToFit example_instance 0 erased_world) = Normal \<and>
   wf example_instance (snd (ShrinkToFit example_instance 0 erased_world)) 0 \<and>
   elements example_instance (snd (ShrinkToFit example_instance 0 erased_world)) 0
     = elements example_instance erased_world 0 \<and>
   wf example_instance allocated_world 0 \<and> GetIsAllocated (storages allocated_world 0) \<and>
   heap allocated_world (next_block allocated_world) = None \<and>
   fst (ShrinkToFit example_instance 0 allocated_world) = Normal \<and>
   wf example_instance (snd (ShrinkToFit example_instance 0 allocated_world)) 0 \<and>
   elements example_instance (snd (ShrinkToFit example_instance 0 allocated_world)) 0
     = elements example_instance allocated_world 0"
proof -
  let ?r = "ShrinkToFit example_instance 0 erased_world"
  let ?q = "ShrinkToFit example_instance 0 allocated_world"
  have s: "sane example_instance"
    by (simp add: sane_def example_instance_def)
  have a1: "wf example_instance erased_world 0" by code_simp
  have a2: "GetIsAllocated (storages erased_world 0)" by code_simp
  have a3: "heap erased_world (next_block erased_world) = None" by code_simp
  have a4: "fst ?r = Normal" by code_simp
  then have a5: "?r = (Normal, snd ?r)" by (metis prod.collapse)
  have a6: "\<forall>u\<in>set (elements example_instance erased_world 0). moved_to example_instance u = u"
    by code_simp
  have b1: "wf example_instance allocated_world 0" by code_simp
  have b2: "GetIsAllocated (storages allocated_world 0)" by code_simp
  have b3: "heap allocated_world (next_block allocated_world) = None" by code_simp
  have b4: "fst ?q = Normal" by code_simp
  then have b5: "?q = (Normal, snd ?q)" by (metis prod.collapse)
  have b6: "\<forall>u\<in>set (elements example_instance allocated_world 0). moved_to example_instance u = u"
    by code_simp
  from ShrinkToFit_spec [of example_instance erased_world 0 "snd ?r"] s a1 a2 a3 a5 a6
  have 1: "wf example_instance (snd ?r) 0 \<and>
           elements example_instance (snd ?r) 0 = elements example_instance erased_world 0"
    by blast
  from ShrinkToFit_spec [of example_instance allocated_world 0 "snd ?q"] s b1 b2 b3 b5 b6
  have 2: "wf example_instance (snd ?q) 0 \<and>
           elements example_instance (snd ?q) 0 = elements example_instance allocated_world 0"
    by blast
  from s a1 a2 a3 a4 b1 b2 b3 b4 1 2 show ?thesis by blast
qed

subsection \<open>\<open>Swap\<close>\<close>

lemma faithful_movesD:
  "faithful_moves P \<Longrightarrow> move_construct P u = Some (v, l) \<Longrightarrow> v = u"
  "faithful_moves P \<Longrightarrow> move_assign P old u = Some (v, l) \<Longrightarrow> v = u"
  unfolding faithful_moves_def by blast+

lemma assign_move_Ptr:
  assumes "rs \<noteq> rd" "get_buffer P w rs = Some src" "get_buffer P w rd = Some dst"
  shows "assign_move P (Ptr rd d) (Ptr rs s) w =
    (if 0 \<le> d \<and> nat d < length dst \<and> dst ! nat d \<noteq> None \<and>
        0 \<le> s \<and> nat s < length src \<and> src ! nat s \<noteq> None
     then (case move_assign P (the (dst ! nat d)) (the (src ! nat s)) of
             None \<Rightarrow> (Throw, w)
           | Some (new, left) \<Rightarrow>
               (Normal, put_buffer (put_buffer w rs (src[nat s := Some left])) rd (dst[nat d := Some new])))
     else (Undefined, w))"
  using assms
  by (auto simp: assign_move_def load_Ptr store_Ptr split: option.splits)

lemma swap_elements_Normal:
  assumes ne: "ra \<noteq> rb" and ga: "get_buffer P w ra = Some xs" and gb: "get_buffer P w rb = Some ys"
      and fm: "faithful_moves P"
      and run: "swap_elements P (Ptr ra (int i)) (Ptr rb (int i)) w = (Normal, w')"
  shows "i < length xs \<and> i < length ys \<and> xs ! i \<noteq> None \<and> ys ! i \<noteq> None \<and>
         w' = put_buffer (put_buffer w ra (xs[i := ys ! i])) rb (ys[i := xs ! i])"
proof -
  from run obtain x tmp left w1 w2 y y' tmp' w3 where
    lx: "load P w (Ptr ra (int i)) = Some x"
    and mc: "move_construct P x = Some (tmp, left)"
    and s1: "store P w (Ptr ra (int i)) (Some left) = Some w1"
    and am: "assign_move P (Ptr ra (int i)) (Ptr rb (int i)) w1 = (Normal, w2)"
    and ly: "load P w2 (Ptr rb (int i)) = Some y"
    and ma: "move_assign P y tmp = Some (y', tmp')"
    and s3: "store P w2 (Ptr rb (int i)) (Some y') = Some w3"
    and w': "w' = w3"
    by (auto simp: swap_elements_def split: option.splits prod.splits status.splits)
  from lx ga have ix: "i < length xs" and x: "xs ! i = Some x"
    by (auto simp: load_Ptr split: if_splits)
  from s1 ga ix have w1: "w1 = put_buffer w ra (xs[i := Some left])"
    by (simp add: store_Ptr)
  have g1a: "get_buffer P w1 ra = Some (xs[i := Some left])" by (simp add: w1)
  have g1b: "get_buffer P w1 rb = Some ys" using ne gb by (simp add: w1)
  from am obtain v new left2 where iy: "i < length ys" and yv: "ys ! i = Some v"
    and mv: "move_assign P left v = Some (new, left2)"
    and w2: "w2 = put_buffer (put_buffer w1 rb (ys[i := Some left2])) ra (xs[i := Some left, i := Some new])"
    using ix
    by (auto simp: assign_move_Ptr [OF ne [symmetric] g1b g1a] split: if_splits option.splits)
  have g2b: "get_buffer P w2 rb = Some (ys[i := Some left2])" using ne by (simp add: w2)
  from ly g2b iy have y: "y = left2" by (simp add: load_Ptr)
  from s3 g2b iy have w3: "w3 = put_buffer w2 rb (ys[i := Some left2, i := Some y'])"
    by (simp add: store_Ptr)
  from fm mc have tmp: "tmp = x" by (rule faithful_movesD)
  from fm mv have new: "new = v" by (rule faithful_movesD)
  from fm ma have "y' = tmp" by (rule faithful_movesD)
  with tmp have y': "y' = x" by simp
  have "w' = put_buffer (put_buffer w ra (xs[i := ys ! i])) rb (ys[i := xs ! i])"
    using ne by (simp add: w' w3 w2 w1 new y' x yv put_buffer_commute [of rb ra])
  with ix iy x yv show ?thesis by simp
qed

lemma drop_Suc_update: "drop (Suc i) (xs[i := y]) = drop (Suc i) xs"
  by simp

lemma swap_loop_Normal:
  assumes ne: "a \<noteq> b" and fm: "faithful_moves P"
      and ga: "get_buffer P w (InlinedBuffer a) = Some xs"
      and gb: "get_buffer P w (InlinedBuffer b) = Some ys"
      and run: "swap_loop P a b i k w = (Normal, w')"
  shows "(0 < k \<longrightarrow> i + k \<le> length xs \<and> i + k \<le> length ys) \<and>
         (\<forall>j<k. xs ! (i + j) \<noteq> None \<and> ys ! (i + j) \<noteq> None) \<and>
         w' = written k (written k w (InlinedBuffer a) (fill xs i (take k (drop i ys))))
                (InlinedBuffer b) (fill ys i (take k (drop i xs)))"
  using ga gb run
proof (induction k arbitrary: i w xs ys)
  case 0
  then show ?case by simp
next
  case (Suc k)
  let ?A = "InlinedBuffer a" and ?B = "InlinedBuffer b"
  have neAB: "?A \<noteq> ?B" using ne by simp
  from Suc.prems(3) obtain w1 where
    se: "swap_elements P (Ptr ?A (int i)) (Ptr ?B (int i)) w = (Normal, w1)"
    and rest: "swap_loop P a b (Suc i) k w1 = (Normal, w')"
    by (auto simp: GetInlinedData_def split: prod.splits status.splits)
  from swap_elements_Normal [OF neAB Suc.prems(1,2) fm se]
  have ix: "i < length xs" and iy: "i < length ys" and x: "xs ! i \<noteq> None" and y: "ys ! i \<noteq> None"
    and w1: "w1 = put_buffer (put_buffer w ?A (xs[i := ys ! i])) ?B (ys[i := xs ! i])"
    by simp_all
  have g1: "get_buffer P w1 ?A = Some (xs[i := ys ! i])" "get_buffer P w1 ?B = Some (ys[i := xs ! i])"
    using neAB by (simp_all add: w1)
  from Suc.IH [OF g1 rest, unfolded length_list_update drop_Suc_update]
  have b: "0 < k \<longrightarrow> Suc i + k \<le> length xs \<and> Suc i + k \<le> length ys"
    and nn: "\<forall>j<k. xs[i := ys ! i] ! (Suc i + j) \<noteq> None \<and> ys[i := xs ! i] ! (Suc i + j) \<noteq> None"
    and w': "w' = written k (written k w1 ?A (fill (xs[i := ys ! i]) (Suc i) (take k (drop (Suc i) ys))))
                    ?B (fill (ys[i := xs ! i]) (Suc i) (take k (drop (Suc i) xs)))"
    by blast+
  have bounds: "i + Suc k \<le> length xs \<and> i + Suc k \<le> length ys"
    using b ix iy by (cases k) auto
  have nn': "\<forall>j<Suc k. xs ! (i + j) \<noteq> None \<and> ys ! (i + j) \<noteq> None"
  proof (intro allI impI)
    fix j assume "j < Suc k"
    show "xs ! (i + j) \<noteq> None \<and> ys ! (i + j) \<noteq> None"
    proof (cases j)
      case 0 with x y show ?thesis by simp
    next
      case (Suc m)
      with \<open>j < Suc k\<close> nn have "xs[i := ys ! i] ! (Suc i + m) \<noteq> None \<and> ys[i := xs ! i] ! (Suc i + m) \<noteq> None"
        by simp
      with Suc show ?thesis by simp
    qed
  qed
  have lt: "length (take k (drop (Suc i) ys)) = k" "length (take k (drop (Suc i) xs)) = k"
    using bounds by auto
  have fa: "fill (xs[i := ys ! i]) (Suc i) (take k (drop (Suc i) ys)) = fill xs i (take (Suc k) (drop i ys))"
    using fill_update_Cons [of i "take k (drop (Suc i) ys)" xs "ys ! i"] bounds lt iy
    by (simp add: take_Suc_drop)
  have fb: "fill (ys[i := xs ! i]) (Suc i) (take k (drop (Suc i) xs)) = fill ys i (take (Suc k) (drop i xs))"
    using fill_update_Cons [of i "take k (drop (Suc i) xs)" ys "xs ! i"] bounds lt ix
    by (simp add: take_Suc_drop)
  have u: "xs[i := ys ! i] = fill xs i (take (Suc 0) (drop i ys))" "ys[i := xs ! i] = fill ys i (take (Suc 0) (drop i xs))"
    using ix iy by (simp_all add: list_update_eq_fill take_Suc_drop)
  have "w' = put_buffer (put_buffer w ?A (fill xs i (take (Suc k) (drop i ys))))
                ?B (fill ys i (take (Suc k) (drop i xs)))"
  proof (cases k)
    case 0
    then show ?thesis using w' w1 u by simp
  next
    case (Suc m)
    then show ?thesis using w' neAB unfolding fa fb w1 by simp
  qed
  with bounds nn' show ?case by simp
qed

lemma wf_inlined_buffer:
  assumes sane: "sane P" and wf: "wf P w this" and al: "\<not> GetIsAllocated (storages w this)"
  shows "get_buffer P w (InlinedBuffer this)
         = Some (map Some (elements P w this) @ replicate (N P - length (elements P w this)) None)"
    and "length (elements P w this) = unat (GetSize (storages w this))"
    and "length (elements P w this) \<le> N P"
proof -
  let ?sv = "MakeStorageView P this (storages w this)"
  from al have cap: "unat (view_capacity ?sv) = N P"
    by (simp add: MakeStorageView_def unat_GetInlinedCapacity [OF sane])
  from wf_buffer [OF sane wf] obtain r vs where
    gb: "get_buffer P w r = Some (map Some vs @ replicate (unat (view_capacity ?sv) - length vs) None)"
    and len: "length vs = unat (view_size ?sv)" and le: "length vs \<le> unat (view_capacity ?sv)"
    and el: "elements P w this = vs"
    and rc: "case r of HeapBlock a \<Rightarrow> GetIsAllocated (storages w this) \<and>
                  data (storages w this) = Allocated (Ptr (HeapBlock a) 0) (view_capacity ?sv)
             | InlinedBuffer i \<Rightarrow> i = this \<and> \<not> GetIsAllocated (storages w this)"
    by blast
  from rc al have r: "r = InlinedBuffer this" by (cases r) auto
  show "get_buffer P w (InlinedBuffer this)
         = Some (map Some (elements P w this) @ replicate (N P - length (elements P w this)) None)"
    using gb by (simp add: r el cap)
  show "length (elements P w this) = unat (GetSize (storages w this))"
    using len by (simp add: el)
  show "length (elements P w this) \<le> N P"
    using le by (simp add: el cap)
qed

lemma get_buffer_written_same:
  "get_buffer P w r = Some xs \<Longrightarrow> (n = 0 \<Longrightarrow> ys = xs) \<Longrightarrow> get_buffer P (written n w r ys) r = Some ys"
  by (auto simp: get_buffer_written)

lemma get_buffer_written_other:
  "r' \<noteq> r \<Longrightarrow> get_buffer P (written n w r ys) r' = get_buffer P w r'"
  by (simp add: get_buffer_written)

lemma written_inline_fields [simp]:
  "heap (written n w (InlinedBuffer j) xs) = heap w"
  "i \<noteq> j \<Longrightarrow> storages (written n w (InlinedBuffer j) xs) i = storages w i"
  by (simp_all add: written_def put_buffer.simps)

lemma faithful_moved_to: "faithful_moves P \<Longrightarrow> move_construct P v \<noteq> None \<Longrightarrow> moved_to P v = v"
  by (cases "move_construct P v") (auto simp: moved_to_def dest: faithful_movesD(1))

lemma faithful_map_moved_to:
  "faithful_moves P \<Longrightarrow> \<forall>v\<in>set vs. move_construct P v \<noteq> None \<Longrightarrow> map (Some \<circ> moved_to P) vs = map Some vs"
  by (simp add: faithful_moved_to)

lemma Swap_inlined_Normal:
  assumes sane: "sane P" and fm: "faithful_moves P" and ne: "s \<noteq> l"
      and wfs: "wf P w s" and wfl: "wf P w l"
      and nas: "\<not> GetIsAllocated (storages w s)" and nal: "\<not> GetIsAllocated (storages w l)"
      and le: "GetSize (storages w s) \<le> GetSize (storages w l)"
      and run: "Swap_inlined P s l w = (Normal, w1)"
  shows "get_buffer P w1 (InlinedBuffer s)
           = Some (map Some (elements P w l) @ replicate (N P - length (elements P w l)) None) \<and>
         get_buffer P w1 (InlinedBuffer l)
           = Some (map Some (elements P w s) @ replicate (N P - length (elements P w s)) None) \<and>
         heap w1 = heap w \<and> next_block w1 = next_block w \<and>
         (\<forall>i. size_and_is_allocated (storages w1 i) = size_and_is_allocated (storages w i) \<and>
              allocator (storages w1 i) = allocator (storages w i)) \<and>
         (\<forall>i. i \<noteq> s \<and> i \<noteq> l \<longrightarrow> storages w1 i = storages w i)"
proof -
  let ?S = "InlinedBuffer s" and ?L = "InlinedBuffer l"
  let ?us = "elements P w s" and ?vs = "elements P w l"
  let ?ms = "GetSize (storages w s)" and ?ns = "GetSize (storages w l)"
  let ?m = "unat ?ms" and ?n = "unat ?ns"
  let ?k = "?n - ?m"
  let ?xs = "map Some ?us @ replicate (N P - ?m) None"
  let ?ys = "map Some ?vs @ replicate (N P - ?n) None"
  note bs = wf_inlined_buffer [OF sane wfs nas]
  note bl = wf_inlined_buffer [OF sane wfl nal]
  have lu: "length ?us = ?m" and lv: "length ?vs = ?n" and mN: "?m \<le> N P" and nN: "?n \<le> N P"
    using bs bl by simp_all
  have mn: "?m \<le> ?n" using le by (simp add: word_le_nat_alt)
  have k: "unat (?ns - ?ms) = ?k" using le by (simp add: unat_sub)
  have ga: "get_buffer P w ?S = Some ?xs" using bs(1) lu by simp
  have gb: "get_buffer P w ?L = Some ?ys" using bl(1) lv by simp
  have neSL: "?S \<noteq> ?L" and neLS: "?L \<noteq> ?S" using ne by simp_all
  from run obtain wa mv wb where
    sl: "swap_loop P s l 0 ?m w = (Normal, wa)"
    and ce: "ConstructElements P (Ptr ?S (int ?m)) (MoveValueAdapter (Ptr ?L (int ?m))) (?ns - ?ms) wa = (Normal, mv, wb)"
    and de: "DestroyElements P (Ptr ?L (int ?m)) (?ns - ?ms) wb = (Normal, w1)"
    by (auto simp: Swap_inlined_def Let_def GetInlinedData_def
             simp del: DestroyElements_Ptr split: prod.splits status.splits)
  \<comment> \<open>the common prefix is exchanged\<close>
  let ?xs1 = "map Some (take ?m ?vs) @ replicate (N P - ?m) None"
  let ?ys1 = "map Some (?us @ drop ?m ?vs) @ replicate (N P - ?n) None"
  from swap_loop_Normal [OF ne fm ga gb sl]
  have wa: "wa = written ?m (written ?m w ?S (fill ?xs 0 (take ?m ?ys))) ?L (fill ?ys 0 (take ?m ?xs))"
    by simp
  have f1: "fill ?xs 0 (take ?m ?ys) = ?xs1"
    using lu lv mn fill_prefix [of "map Some (take ?m ?vs)" "map Some ?us" "replicate (N P - ?m) None"]
    by (simp add: take_map)
  have "?ys = map Some (take ?m ?vs) @ (map Some (drop ?m ?vs) @ replicate (N P - ?n) None)"
    by (simp flip: map_append)
  then have f2: "fill ?ys 0 (take ?m ?xs) = ?ys1"
    using lu lv mn fill_prefix [of "map Some ?us" "map Some (take ?m ?vs)" "map Some (drop ?m ?vs) @ replicate (N P - ?n) None"]
    by simp
  note wa = wa [unfolded f1 f2]
  have m0x: "?m = 0 \<Longrightarrow> ?xs1 = ?xs" using lu by simp
  have m0y: "?m = 0 \<Longrightarrow> ?ys1 = ?ys" using lu by simp
  have gaa: "get_buffer P wa ?S = Some ?xs1"
    unfolding wa using ga neSL m0x
    by (simp add: get_buffer_written_other get_buffer_written_same)
  have gab: "get_buffer P wa ?L = Some ?ys1"
    unfolding wa using gb neLS m0y
    by (simp add: get_buffer_written_other get_buffer_written_same)
  \<comment> \<open>the rest of the longer sequence is moved over\<close>
  from ce have cel: "ConstructElements_loop P (Ptr ?S (int ?m)) (MoveValueAdapter (Ptr ?L (int ?m))) 0 ?k wa = (Normal, mv, wb)"
    by (simp add: ConstructElements_def k)
  from ConstructElements_loop_move_Normal [OF neLS gab gaa cel]
  obtain ts where lt: "length ts = ?k" and ts: "map Some ts = take ?k (drop ?m ?ys1)"
    and ok: "\<forall>v\<in>set ts. move_construct P v \<noteq> None"
    and wb: "wb = log_events (map (\<lambda>j. ConstructCall (Ptr ?S (int ?m + int j))) [0..<0 + ?k])
                   (written ?k (written ?k wa ?L (fill ?ys1 ?m (map (Some \<circ> moved_from P) ts)))
                      ?S (fill ?xs1 (?m + 0) (map (Some \<circ> moved_to P) ts)))"
    by blast
  have "take ?k (drop ?m ?ys1) = map Some (drop ?m ?vs)"
    using lu lv mn by simp
  with ts have ts_eq: "ts = drop ?m ?vs" by (simp add: inj_map_Some)
  let ?xs2 = "map Some ?vs @ replicate (N P - ?n) None"
  let ?ys2 = "map Some (?us @ map (moved_from P) (drop ?m ?vs)) @ replicate (N P - ?n) None"
  have f3: "fill ?xs1 (?m + 0) (map (Some \<circ> moved_to P) ts) = ?xs2"
  proof -
    have "map (Some \<circ> moved_to P) ts = map Some (drop ?m ?vs)"
      using faithful_map_moved_to [OF fm ok] ts_eq by simp
    moreover have "fill ?xs1 ?m (map Some (drop ?m ?vs)) = ?xs2"
      using lv mn nN
      by (simp add: fill_def min_absorb2 flip: map_append replicate_add)
    ultimately show ?thesis by simp
  qed
  have f4: "fill ?ys1 ?m (map (Some \<circ> moved_from P) ts) = ?ys2"
    using lu lv mn nN by (simp add: fill_def ts_eq)
  note wb = wb [unfolded f3 f4]
  have k0x: "?k = 0 \<Longrightarrow> ?xs2 = ?xs1" using lv mn by simp
  have k0y: "?k = 0 \<Longrightarrow> ?ys2 = ?ys1" using lv mn by simp
  have gba: "get_buffer P wb ?S = Some ?xs2"
    unfolding wb using gaa gab neSL k0x k0y
    by (simp add: get_buffer_written_other get_buffer_written_same)
  have gbb: "get_buffer P wb ?L = Some ?ys2"
    unfolding wb using gaa gab neLS k0x k0y
    by (simp add: get_buffer_written_other get_buffer_written_same)
  \<comment> \<open>and destroyed where it came from\<close>
  from de have del: "DestroyElements_loop P (Ptr ?L (int ?m)) ?k wb = (Normal, w1)"
    by (simp add: k)
  from DestroyElements_loop_Normal [OF gbb del]
  have w1: "w1 = log_events (map (\<lambda>j. DestroyCall (Ptr ?L (int ?m + int j))) (rev [0..<?k]))
                   (written ?k wb ?L (fill ?ys2 ?m (replicate ?k None)))"
    by simp
  let ?ys3 = "map Some ?us @ replicate (N P - ?m) None"
  have f5: "fill ?ys2 ?m (replicate ?k None) = ?ys3"
    using lu lv mn nN by (simp add: fill_def flip: replicate_add)
  note w1 = w1 [unfolded f5]
  have k0z: "?k = 0 \<Longrightarrow> ?ys3 = ?ys2" using lu lv mn by simp
  have g1a: "get_buffer P w1 ?S = Some ?xs2"
    unfolding w1 using gba neSL by (simp add: get_buffer_written_other)
  have g1b: "get_buffer P w1 ?L = Some ?ys3"
    unfolding w1 using gbb k0z by (simp add: get_buffer_written_same)
  have "heap w1 = heap w" "next_block w1 = next_block w"
    by (simp_all add: w1 wb wa)
  moreover have "\<forall>i. size_and_is_allocated (storages w1 i) = size_and_is_allocated (storages w i) \<and>
              allocator (storages w1 i) = allocator (storages w i)"
    by (simp add: w1 wb wa)
  moreover have "\<forall>i. i \<noteq> s \<and> i \<noteq> l \<longrightarrow> storages w1 i = storages w i"
    by (simp add: w1 wb wa)
  ultimately show ?thesis using g1a g1b lu lv by simp
qed

lemma get_buffer_upd_storage_other:
  "i \<noteq> j \<Longrightarrow> get_buffer P (upd_storage j f w) (InlinedBuffer i) = get_buffer P w (InlinedBuffer i)"
  by (simp add: get_buffer.simps)

lemma Swap_mixed_Normal:
  assumes sane: "sane P" and fm: "faithful_moves P" and ne: "a \<noteq> b"
      and wfa: "wf P w a" and wfb: "wf P w b"
      and ala: "GetIsAllocated (storages w a)" and nab: "\<not> GetIsAllocated (storages w b)"
      and run: "Swap_mixed P a b w = (Normal, w1)"
  shows "get_buffer P w1 (InlinedBuffer a)
           = Some (map Some (elements P w b) @ replicate (N P - length (elements P w b)) None) \<and>
         data (storages w1 b) = data (storages w a) \<and>
         heap w1 = heap w \<and> next_block w1 = next_block w \<and>
         (\<forall>i. size_and_is_allocated (storages w1 i) = size_and_is_allocated (storages w i) \<and>
              allocator (storages w1 i) = allocator (storages w i)) \<and>
         (\<forall>i. i \<noteq> a \<and> i \<noteq> b \<longrightarrow> storages w1 i = storages w i)"
proof -
  let ?A = "InlinedBuffer a" and ?B = "InlinedBuffer b"
  let ?us = "elements P w b"
  let ?ms = "GetSize (storages w b)"
  let ?m = "unat ?ms"
  let ?ys = "map Some ?us @ replicate (N P - ?m) None"
  let ?c = "GetAllocatedCapacity (storages w a)"
  from wf_allocated_buffer [OF sane wfa ala] obtain ha where
    d: "data (storages w a) = Allocated (Ptr (HeapBlock ha) 0) ?c"
    by blast
  have gad: "GetAllocatedData (storages w a) = Ptr (HeapBlock ha) 0" by (simp add: GetAllocatedData_def d)
  note bb = wf_inlined_buffer [OF sane wfb nab]
  have lu: "length ?us = ?m" and mN: "?m \<le> N P" using bb by simp_all
  have gB: "get_buffer P w ?B = Some ?ys" using bb(1) lu by simp
  have gA: "get_buffer P w ?A = Some (replicate (N P) None)" by (simp add: get_buffer.simps d)
  have neAB: "?A \<noteq> ?B" and neBA: "?B \<noteq> ?A" using ne by simp_all
  from run obtain mv wa wb where
    ce: "ConstructElements P (Ptr ?A (int 0)) (MoveValueAdapter (Ptr ?B (int 0))) ?ms w = (Normal, mv, wa)"
    and de: "DestroyElements P (Ptr ?B (int 0)) (GetSize (storages wa b)) wa = (Normal, wb)"
    and w1: "w1 = upd_storage b (SetAllocatedData (Ptr (HeapBlock ha) 0) ?c) wb"
    by (auto simp: Swap_mixed_def Let_def GetInlinedData_def gad
             simp del: DestroyElements_Ptr split: prod.splits status.splits)
  from ce have cel: "ConstructElements_loop P (Ptr ?A (int 0)) (MoveValueAdapter (Ptr ?B (int 0))) 0 ?m w = (Normal, mv, wa)"
    by (simp add: ConstructElements_def)
  from ConstructElements_loop_move_Normal [OF neBA gB gA cel]
  obtain ts where lt: "length ts = ?m" and ts: "map Some ts = take ?m (drop 0 ?ys)"
    and ok: "\<forall>v\<in>set ts. move_construct P v \<noteq> None"
    and wa: "wa = log_events (map (\<lambda>j. ConstructCall (Ptr ?A (int 0 + int j))) [0..<0 + ?m])
                   (written ?m (written ?m w ?B (fill ?ys 0 (map (Some \<circ> moved_from P) ts)))
                      ?A (fill (replicate (N P) None) (0 + 0) (map (Some \<circ> moved_to P) ts)))"
    by blast
  have "take ?m (drop 0 ?ys) = map Some ?us" using lu by simp
  with ts have ts_eq: "ts = ?us" by (simp add: inj_map_Some)
  let ?xs1 = "map Some ?us @ replicate (N P - ?m) None"
  let ?ys1 = "map Some (map (moved_from P) ?us) @ replicate (N P - ?m) None"
  have f1: "fill (replicate (N P) None) (0 + 0) (map (Some \<circ> moved_to P) ts) = ?xs1"
  proof -
    have "map (Some \<circ> moved_to P) ts = map Some ?us"
      using faithful_map_moved_to [OF fm ok] ts_eq by simp
    moreover have "fill (replicate (N P) None) 0 (map Some ?us) = ?xs1"
      using lu mN fill_replicate_0 [of "map Some ?us" "N P" None] by simp
    ultimately show ?thesis by simp
  qed
  have f2: "fill ?ys 0 (map (Some \<circ> moved_from P) ts) = ?ys1"
    using fill_prefix [of "map (Some \<circ> moved_from P) ?us" "map Some ?us" "replicate (N P - ?m) None"]
    by (simp add: ts_eq)
  note wa = wa [unfolded f1 f2]
  have m0x: "?m = 0 \<Longrightarrow> ?xs1 = replicate (N P) None" using lu by simp
  have m0y: "?m = 0 \<Longrightarrow> ?ys1 = ?ys" using lu by simp
  have gaa: "get_buffer P wa ?A = Some ?xs1"
    unfolding wa using gA neAB m0x
    by (simp add: get_buffer_written_other get_buffer_written_same)
  have gab: "get_buffer P wa ?B = Some ?ys1"
    unfolding wa using gB neBA m0y
    by (simp add: get_buffer_written_other get_buffer_written_same)
  have sz: "GetSize (storages wa b) = ?ms" by (simp add: wa GetSize_def)
  from de have del: "DestroyElements_loop P (Ptr ?B (int 0)) ?m wa = (Normal, wb)"
    by (simp add: sz)
  from DestroyElements_loop_Normal [OF gab del]
  have wb: "wb = log_events (map (\<lambda>j. DestroyCall (Ptr ?B (int 0 + int j))) (rev [0..<?m]))
                   (written ?m wa ?B (fill ?ys1 0 (replicate ?m None)))"
    by simp
  have g1a: "get_buffer P w1 ?A = Some ?xs1"
    unfolding w1 wb using gaa neAB ne
    by (simp add: get_buffer_upd_storage_other get_buffer_written_other)
  have "data (storages w1 b) = data (storages w a)" by (simp add: w1 d)
  moreover have "heap w1 = heap w" "next_block w1 = next_block w"
    by (simp_all add: w1 wb wa)
  moreover have "\<forall>i. size_and_is_allocated (storages w1 i) = size_and_is_allocated (storages w i) \<and>
              allocator (storages w1 i) = allocator (storages w i)"
    by (simp add: w1 wb wa)
  moreover have "\<forall>i. i \<noteq> a \<and> i \<noteq> b \<longrightarrow> storages w1 i = storages w i"
    by (simp add: w1 wb wa)
  ultimately show ?thesis using g1a lu by simp
qed

lemma wf_transfer_inlined:
  assumes sane: "sane P" and wf: "wf P w y" and al: "\<not> GetIsAllocated (storages w y)"
      and word: "size_and_is_allocated (storages w' x) = size_and_is_allocated (storages w y)"
      and gb: "get_buffer P w' (InlinedBuffer x)
               = Some (map Some (elements P w y) @ replicate (N P - length (elements P w y)) None)"
  shows "wf P w' x" and "elements P w' x = elements P w y"
proof -
  note b = wf_inlined_buffer [OF sane wf al]
  have al': "\<not> GetIsAllocated (storages w' x)" using al by (simp add: GetIsAllocated_def word)
  have gs: "GetSize (storages w' x) = GetSize (storages w y)" by (simp add: GetSize_def word)
  have l1: "length (elements P w y) + (N P - length (elements P w y)) = N P" using b(3) by simp
  have l2: "length (elements P w y) = unat (GetSize (storages w' x))" using b(2) gs by simp
  from wf_inlined_intro [OF al' gb l1 l2]
  show "wf P w' x" and "elements P w' x = elements P w y" by simp_all
qed

lemma wf_transfer_allocated:
  assumes sane: "sane P" and wf: "wf P w y" and al: "GetIsAllocated (storages w y)"
      and word: "size_and_is_allocated (storages w' x) = size_and_is_allocated (storages w y)"
      and d: "data (storages w' x) = data (storages w y)"
      and hp: "heap w' = heap w"
  shows "wf P w' x" and "elements P w' x = elements P w y"
proof -
  let ?c = "GetAllocatedCapacity (storages w y)"
  from wf_allocated_buffer [OF sane wf al] obtain a where
    dy: "data (storages w y) = Allocated (Ptr (HeapBlock a) 0) ?c"
    and h: "heap w a = Some (map Some (elements P w y) @ replicate (unat ?c - length (elements P w y)) None)"
    and len: "length (elements P w y) = unat (GetSize (storages w y))"
    and le: "length (elements P w y) \<le> unat ?c"
    and Nc: "N P < unat ?c" and cm: "unat ?c \<le> max_size P"
    by blast
  have al': "GetIsAllocated (storages w' x)" using al by (simp add: GetIsAllocated_def word)
  have gs: "GetSize (storages w' x) = GetSize (storages w y)" by (simp add: GetSize_def word)
  have d': "data (storages w' x) = Allocated (Ptr (HeapBlock a) 0) ?c" using d dy by simp
  have h': "heap w' a = Some (map Some (elements P w y) @ replicate (unat ?c - length (elements P w y)) None)"
    using h hp by simp
  have l1: "length (elements P w y) + (unat ?c - length (elements P w y)) = unat ?c" using le by simp
  have l2: "length (elements P w y) = unat (GetSize (storages w' x))" using len gs by simp
  from wf_allocated_intro [OF d' al' Nc h' l1 l2 cm]
  show "wf P w' x" and "elements P w' x = elements P w y" by simp_all
qed

lemma swap_metadata_fields:
  assumes "a \<noteq> b"
  shows "size_and_is_allocated (storages (swap_metadata a b w) a) = size_and_is_allocated (storages w b)"
    and "size_and_is_allocated (storages (swap_metadata a b w) b) = size_and_is_allocated (storages w a)"
    and "allocator (storages (swap_metadata a b w) a) = allocator (storages w b)"
    and "allocator (storages (swap_metadata a b w) b) = allocator (storages w a)"
    and "data (storages (swap_metadata a b w) i) = data (storages w i)"
    and "heap (swap_metadata a b w) = heap w"
    and "next_block (swap_metadata a b w) = next_block w"
    and "trace (swap_metadata a b w) = trace w"
    and "i \<noteq> a \<Longrightarrow> i \<noteq> b \<Longrightarrow> storages (swap_metadata a b w) i = storages w i"
    and "get_buffer P (swap_metadata a b w) r = get_buffer P w r"
  using assms by (cases r; simp add: swap_metadata_def get_buffer.simps)+

lemma swapped_intro:
  assumes sane: "sane P" and ne: "a \<noteq> b" and wfa: "wf P w a" and wfb: "wf P w b"
      and ta: "if GetIsAllocated (storages w b) then data (storages w1 a) = data (storages w b)
               else get_buffer P w1 (InlinedBuffer a)
                    = Some (map Some (elements P w b) @ replicate (N P - length (elements P w b)) None)"
      and tb: "if GetIsAllocated (storages w a) then data (storages w1 b) = data (storages w a)
               else get_buffer P w1 (InlinedBuffer b)
                    = Some (map Some (elements P w a) @ replicate (N P - length (elements P w a)) None)"
      and hp: "heap w1 = heap w" and nb: "next_block w1 = next_block w"
      and words: "\<forall>i. size_and_is_allocated (storages w1 i) = size_and_is_allocated (storages w i) \<and>
                      allocator (storages w1 i) = allocator (storages w i)"
      and others: "\<forall>i. i \<noteq> a \<and> i \<noteq> b \<longrightarrow> storages w1 i = storages w i"
      and w': "w' = swap_metadata a b w1"
  shows "wf P w' a \<and> wf P w' b \<and>
         elements P w' a = elements P w b \<and> elements P w' b = elements P w a \<and>
         size_and_is_allocated (storages w' a) = size_and_is_allocated (storages w b) \<and>
         size_and_is_allocated (storages w' b) = size_and_is_allocated (storages w a) \<and>
         allocator (storages w' a) = allocator (storages w b) \<and>
         allocator (storages w' b) = allocator (storages w a) \<and>
         (GetIsAllocated (storages w b) \<longrightarrow> data (storages w' a) = data (storages w b)) \<and>
         (GetIsAllocated (storages w a) \<longrightarrow> data (storages w' b) = data (storages w a)) \<and>
         heap w' = heap w \<and> next_block w' = next_block w \<and>
         (\<forall>i. i \<noteq> a \<and> i \<noteq> b \<longrightarrow> storages w' i = storages w i)"
proof -
  note mf = swap_metadata_fields [OF ne, where w = w1]
  have wa: "size_and_is_allocated (storages w' a) = size_and_is_allocated (storages w b)"
    and wb: "size_and_is_allocated (storages w' b) = size_and_is_allocated (storages w a)"
    and aa: "allocator (storages w' a) = allocator (storages w b)"
    and ab: "allocator (storages w' b) = allocator (storages w a)"
    using words by (simp_all add: w' mf)
  have hp': "heap w' = heap w" and nb': "next_block w' = next_block w"
    using hp nb by (simp_all add: w' mf)
  have da: "data (storages w' a) = data (storages w1 a)" and db: "data (storages w' b) = data (storages w1 b)"
    by (simp_all add: w' mf)
  have ga: "get_buffer P w' (InlinedBuffer a) = get_buffer P w1 (InlinedBuffer a)"
    and gb: "get_buffer P w' (InlinedBuffer b) = get_buffer P w1 (InlinedBuffer b)"
    by (simp_all add: w' mf)
  have A: "wf P w' a \<and> elements P w' a = elements P w b"
  proof (cases "GetIsAllocated (storages w b)")
    case True
    with ta da have "data (storages w' a) = data (storages w b)" by simp
    from wf_transfer_allocated [OF sane wfb True wa this hp'] show ?thesis by simp
  next
    case False
    with ta ga have "get_buffer P w' (InlinedBuffer a)
                    = Some (map Some (elements P w b) @ replicate (N P - length (elements P w b)) None)"
      by simp
    from wf_transfer_inlined [OF sane wfb False wa this] show ?thesis by simp
  qed
  have B: "wf P w' b \<and> elements P w' b = elements P w a"
  proof (cases "GetIsAllocated (storages w a)")
    case True
    with tb db have "data (storages w' b) = data (storages w a)" by simp
    from wf_transfer_allocated [OF sane wfa True wb this hp'] show ?thesis by simp
  next
    case False
    with tb gb have "get_buffer P w' (InlinedBuffer b)
                    = Some (map Some (elements P w a) @ replicate (N P - length (elements P w a)) None)"
      by simp
    from wf_transfer_inlined [OF sane wfa False wb this] show ?thesis by simp
  qed
  have D: "GetIsAllocated (storages w b) \<longrightarrow> data (storages w' a) = data (storages w b)"
    "GetIsAllocated (storages w a) \<longrightarrow> data (storages w' b) = data (storages w a)"
    using ta tb da db by simp_all
  have O: "\<forall>i. i \<noteq> a \<and> i \<noteq> b \<longrightarrow> storages w' i = storages w i"
    using others by (simp add: w' mf)
  from A B wa wb aa ab D hp' nb' O show ?thesis by blast
qed

lemma Swap_Normal:
  assumes sane: "sane P" and fm: "faithful_moves P" and wfa: "wf P w a" and wfb: "wf P w b"
      and run: "Swap P a b w = (Normal, w')"
  shows "a \<noteq> b \<and> wf P w' a \<and> wf P w' b \<and>
         elements P w' a = elements P w b \<and> elements P w' b = elements P w a \<and>
         size_and_is_allocated (storages w' a) = size_and_is_allocated (storages w b) \<and>
         size_and_is_allocated (storages w' b) = size_and_is_allocated (storages w a) \<and>
         allocator (storages w' a) = allocator (storages w b) \<and>
         allocator (storages w' b) = allocator (storages w a) \<and>
         (GetIsAllocated (storages w b) \<longrightarrow> data (storages w' a) = data (storages w b)) \<and>
         (GetIsAllocated (storages w a) \<longrightarrow> data (storages w' b) = data (storages w a)) \<and>
         heap w' = heap w \<and> next_block w' = next_block w \<and>
         (\<forall>i. i \<noteq> a \<and> i \<noteq> b \<longrightarrow> storages w' i = storages w i)"
proof -
  from run have ne: "a \<noteq> b" by (auto simp: Swap_def split: if_splits)
  let ?ala = "GetIsAllocated (storages w a)" and ?alb = "GetIsAllocated (storages w b)"
  consider (allocated) "?ala" "?alb"
    | (inlined_le) "\<not> ?ala" "\<not> ?alb" "GetSize (storages w a) \<le> GetSize (storages w b)"
    | (inlined_gt) "\<not> ?ala" "\<not> ?alb" "GetSize (storages w b) < GetSize (storages w a)"
    | (mixed_a) "?ala" "\<not> ?alb"
    | (mixed_b) "\<not> ?ala" "?alb"
    by fastforce
  then have "\<exists>w1. w' = swap_metadata a b w1 \<and>
      (if ?alb then data (storages w1 a) = data (storages w b)
       else get_buffer P w1 (InlinedBuffer a)
            = Some (map Some (elements P w b) @ replicate (N P - length (elements P w b)) None)) \<and>
      (if ?ala then data (storages w1 b) = data (storages w a)
       else get_buffer P w1 (InlinedBuffer b)
            = Some (map Some (elements P w a) @ replicate (N P - length (elements P w a)) None)) \<and>
      heap w1 = heap w \<and> next_block w1 = next_block w \<and>
      (\<forall>i. size_and_is_allocated (storages w1 i) = size_and_is_allocated (storages w i) \<and>
           allocator (storages w1 i) = allocator (storages w i)) \<and>
      (\<forall>i. i \<noteq> a \<and> i \<noteq> b \<longrightarrow> storages w1 i = storages w i)"
  proof cases
    case allocated
    from wf_allocated_buffer [OF sane wfa allocated(1)] obtain ha where
      da: "data (storages w a) = Allocated (Ptr (HeapBlock ha) 0) (GetAllocatedCapacity (storages w a))"
      by blast
    from wf_allocated_buffer [OF sane wfb allocated(2)] obtain hb where
      db: "data (storages w b) = Allocated (Ptr (HeapBlock hb) 0) (GetAllocatedCapacity (storages w b))"
      by blast
    have gda: "GetAllocatedData (storages w a) = Ptr (HeapBlock ha) 0"
      and gdb: "GetAllocatedData (storages w b) = Ptr (HeapBlock hb) 0"
      by (simp_all add: GetAllocatedData_def da db)
    from run ne allocated have w': "w' = swap_metadata a b (swap_allocated a b w)"
      by (simp add: Swap_def)
    show ?thesis
    proof (intro exI conjI)
      show "w' = swap_metadata a b (swap_allocated a b w)" by (rule w')
    qed (use ne allocated da db in \<open>simp_all add: swap_allocated_def gda gdb\<close>)
  next
    case inlined_le
    then have ngt: "\<not> GetSize (storages w b) < GetSize (storages w a)" by simp
    from run ne inlined_le ngt obtain w1 where
      si: "Swap_inlined P a b w = (Normal, w1)" and w': "w' = swap_metadata a b w1"
      by (auto simp: Swap_def split: prod.splits status.splits)
    from Swap_inlined_Normal [OF sane fm ne wfa wfb inlined_le si] w' inlined_le(1,2)
    show ?thesis by auto
  next
    case inlined_gt
    then have le: "GetSize (storages w b) \<le> GetSize (storages w a)" by simp
    from run ne inlined_gt obtain w1 where
      si: "Swap_inlined P b a w = (Normal, w1)" and w': "w' = swap_metadata a b w1"
      by (auto simp: Swap_def split: prod.splits status.splits)
    from Swap_inlined_Normal [OF sane fm ne [symmetric] wfb wfa inlined_gt(2,1) le si] w' inlined_gt(1,2)
    show ?thesis by auto
  next
    case mixed_a
    from run ne mixed_a obtain w1 where
      sm: "Swap_mixed P a b w = (Normal, w1)" and w': "w' = swap_metadata a b w1"
      by (auto simp: Swap_def split: prod.splits status.splits)
    from Swap_mixed_Normal [OF sane fm ne wfa wfb mixed_a sm] w' mixed_a
    show ?thesis by auto
  next
    case mixed_b
    from run ne mixed_b obtain w1 where
      sm: "Swap_mixed P b a w = (Normal, w1)" and w': "w' = swap_metadata a b w1"
      by (auto simp: Swap_def split: prod.splits status.splits)
    from Swap_mixed_Normal [OF sane fm ne [symmetric] wfb wfa mixed_b(2,1) sm] w' mixed_b
    show ?thesis by auto
  qed
  then obtain w1 where w': "w' = swap_metadata a b w1"
    and ta: "if ?alb then data (storages w1 a) = data (storages w b)
       else get_buffer P w1 (InlinedBuffer a)
            = Some (map Some (elements P w b) @ replicate (N P - length (elements P w b)) None)"
    and tb: "if ?ala then data (storages w1 b) = data (storages w a)
       else get_buffer P w1 (InlinedBuffer b)
            = Some (map Some (elements P w a) @ replicate (N P - length (elements P w a)) None)"
    and hp: "heap w1 = heap w" and nb: "next_block w1 = next_block w"
    and words: "\<forall>i. size_and_is_allocated (storages w1 i) = size_and_is_allocated (storages w i) \<and>
           allocator (storages w1 i) = allocator (storages w i)"
    and others: "\<forall>i. i \<noteq> a \<and> i \<noteq> b \<longrightarrow> storages w1 i = storages w i"
    by blast
  from swapped_intro [OF sane ne wfa wfb ta tb hp nb words others w'] ne
  show ?thesis by blast
qed

lemma MakeStorageView_cong:
  assumes "size_and_is_allocated s' = size_and_is_allocated s"
      and "GetIsAllocated s \<longrightarrow> data s' = data s"
  shows "MakeStorageView P x s' = MakeStorageView P x s"
    and "GetSize s' = GetSize s" and "GetIsAllocated s' = GetIsAllocated s"
proof -
  show s: "GetSize s' = GetSize s" and a: "GetIsAllocated s' = GetIsAllocated s"
    using assms(1) by (simp_all add: GetSize_def GetIsAllocated_def)
  show "MakeStorageView P x s' = MakeStorageView P x s"
    using assms(2) by (simp add: MakeStorageView_def s a GetAllocatedData_def GetAllocatedCapacity_def)
qed

text \<open>
  C7: for two \<open>Storage\<close> objects \<open>a\<close> and \<open>b\<close>, well-formed and in any layout, and an element
  type whose moves keep the value, \<open>a.swap(b)\<close> followed by \<open>b.swap(a)\<close>, both completing,
  restore both: the packed size word (the size and the allocated bit), the allocator, the
  view (data pointer, size, capacity) and the element sequence of each are what they were,
  as are the heap and every other \<open>Storage\<close>. (\<open>Swap\<close> on one and the same object does not
  complete: the assertion fails.)
\<close>

theorem Swap_twice:
  "sane P \<and> faithful_moves P \<and> wf P w a \<and> wf P w b \<and>
   Swap P a b w = (Normal, w1) \<and> Swap P b a w1 = (Normal, w2)
   \<longrightarrow> a \<noteq> b \<and>
       (\<forall>x\<in>{a, b}.
          wf P w2 x \<and>
          size_and_is_allocated (storages w2 x) = size_and_is_allocated (storages w x) \<and>
          allocator (storages w2 x) = allocator (storages w x) \<and>
          GetSize (storages w2 x) = GetSize (storages w x) \<and>
          GetIsAllocated (storages w2 x) = GetIsAllocated (storages w x) \<and>
          MakeStorageView P x (storages w2 x) = MakeStorageView P x (storages w x) \<and>
          elements P w2 x = elements P w x) \<and>
       heap w2 = heap w \<and> next_block w2 = next_block w \<and>
       (\<forall>i. i \<noteq> a \<and> i \<noteq> b \<longrightarrow> storages w2 i = storages w i)"
proof
  assume "sane P \<and> faithful_moves P \<and> wf P w a \<and> wf P w b \<and>
          Swap P a b w = (Normal, w1) \<and> Swap P b a w1 = (Normal, w2)"
  then have sane: "sane P" and fm: "faithful_moves P" and wfa: "wf P w a" and wfb: "wf P w b"
    and r1: "Swap P a b w = (Normal, w1)" and r2: "Swap P b a w1 = (Normal, w2)"
    by simp_all
  note s1 = Swap_Normal [OF sane fm wfa wfb r1]
  from s1 have wf1a: "wf P w1 a" and wf1b: "wf P w1 b" and ne: "a \<noteq> b" by simp_all
  note s2 = Swap_Normal [OF sane fm wf1b wf1a r2]
  have wa: "size_and_is_allocated (storages w2 a) = size_and_is_allocated (storages w a)"
    and wb: "size_and_is_allocated (storages w2 b) = size_and_is_allocated (storages w b)"
    using s1 s2 by simp_all
  have al1a: "GetIsAllocated (storages w1 a) = GetIsAllocated (storages w b)"
    and al1b: "GetIsAllocated (storages w1 b) = GetIsAllocated (storages w a)"
    using s1 by (simp_all add: GetIsAllocated_def)
  have da: "GetIsAllocated (storages w a) \<longrightarrow> data (storages w2 a) = data (storages w a)"
    using s1 s2 al1b by simp
  have db: "GetIsAllocated (storages w b) \<longrightarrow> data (storages w2 b) = data (storages w b)"
    using s1 s2 al1a by simp
  note ca = MakeStorageView_cong [OF wa da]
  note cb = MakeStorageView_cong [OF wb db]
  have A: "wf P w2 a \<and>
          size_and_is_allocated (storages w2 a) = size_and_is_allocated (storages w a) \<and>
          allocator (storages w2 a) = allocator (storages w a) \<and>
          GetSize (storages w2 a) = GetSize (storages w a) \<and>
          GetIsAllocated (storages w2 a) = GetIsAllocated (storages w a) \<and>
          MakeStorageView P a (storages w2 a) = MakeStorageView P a (storages w a) \<and>
          elements P w2 a = elements P w a"
    using s1 s2 ca by simp
  have B: "wf P w2 b \<and>
          size_and_is_allocated (storages w2 b) = size_and_is_allocated (storages w b) \<and>
          allocator (storages w2 b) = allocator (storages w b) \<and>
          GetSize (storages w2 b) = GetSize (storages w b) \<and>
          GetIsAllocated (storages w2 b) = GetIsAllocated (storages w b) \<and>
          MakeStorageView P b (storages w2 b) = MakeStorageView P b (storages w b) \<and>
          elements P w2 b = elements P w b"
    using s1 s2 cb by simp
  have O: "heap w2 = heap w \<and> next_block w2 = next_block w \<and>
           (\<forall>i. i \<noteq> a \<and> i \<noteq> b \<longrightarrow> storages w2 i = storages w i)"
    using s1 s2 by simp
  from A B O ne show "a \<noteq> b \<and>
       (\<forall>x\<in>{a, b}.
          wf P w2 x \<and>
          size_and_is_allocated (storages w2 x) = size_and_is_allocated (storages w x) \<and>
          allocator (storages w2 x) = allocator (storages w x) \<and>
          GetSize (storages w2 x) = GetSize (storages w x) \<and>
          GetIsAllocated (storages w2 x) = GetIsAllocated (storages w x) \<and>
          MakeStorageView P x (storages w2 x) = MakeStorageView P x (storages w x) \<and>
          elements P w2 x = elements P w x) \<and>
       heap w2 = heap w \<and> next_block w2 = next_block w \<and>
       (\<forall>i. i \<noteq> a \<and> i \<noteq> b \<longrightarrow> storages w2 i = storages w i)"
    by blast
qed

theorem Swap_twice_witness:
  "sane example_instance \<and> faithful_moves example_instance \<and>
   wf example_instance pair_world 0 \<and> wf example_instance pair_world 1 \<and>
   GetIsAllocated (storages pair_world 0) \<and> \<not> GetIsAllocated (storages pair_world 1) \<and>
   fst (Swap example_instance 0 1 pair_world) = Normal \<and>
   fst (Swap example_instance 1 0 (snd (Swap example_instance 0 1 pair_world))) = Normal \<and>
   elements example_instance
     (snd (Swap example_instance 1 0 (snd (Swap example_instance 0 1 pair_world)))) 0
     = elements example_instance pair_world 0 \<and>
   elements example_instance
     (snd (Swap example_instance 1 0 (snd (Swap example_instance 0 1 pair_world)))) 1
     = elements example_instance pair_world 1"
proof -
  let ?r1 = "Swap example_instance 0 1 pair_world"
  let ?r2 = "Swap example_instance 1 0 (snd ?r1)"
  have s: "sane example_instance"
    by (simp add: sane_def example_instance_def)
  have f: "faithful_moves example_instance"
    by (auto simp: faithful_moves_def example_instance_def split: if_splits)
  have a1: "wf example_instance pair_world 0" by code_simp
  have a2: "wf example_instance pair_world 1" by code_simp
  have a3: "GetIsAllocated (storages pair_world 0)" by code_simp
  have a4: "\<not> GetIsAllocated (storages pair_world 1)" by code_simp
  have t1: "fst ?r1 = Normal" by code_simp
  then have e1: "?r1 = (Normal, snd ?r1)" by (metis prod.collapse)
  have t2: "fst ?r2 = Normal" by code_simp
  then have e2: "?r2 = (Normal, snd ?r2)" by (metis prod.collapse)
  from Swap_twice [of example_instance pair_world 0 1 "snd ?r1" "snd ?r2"] s f a1 a2 e1 e2
  have "elements example_instance (snd ?r2) 0 = elements example_instance pair_world 0 \<and>
        elements example_instance (snd ?r2) 1 = elements example_instance pair_world 1"
    by blast
  with s f a1 a2 a3 a4 t1 t2 show ?thesis by blast
qed

subsection \<open>The capacity policy, on the capacity of a \<open>Storage\<close>\<close>

lemma wf_capacity_bound:
  assumes sane: "sane P" and wf: "wf P w this"
  shows "unat (view_capacity (MakeStorageView P this (storages w this))) < 2 ^ 63"
proof (cases "GetIsAllocated (storages w this)")
  case True
  from wf_allocated(2) [OF wf True] sane
  have "unat (GetAllocatedCapacity (storages w this)) < 2 ^ 63" by (simp add: sane_def)
  with True show ?thesis by (simp add: MakeStorageView_def)
next
  case False
  with sane show ?thesis
    by (simp add: MakeStorageView_def unat_GetInlinedCapacity sane_def)
qed

text \<open>
  C3: for the capacity \<open>c\<close> of every well-formed \<open>Storage\<close> and every requested capacity \<open>r\<close>,
  the capacity chosen for a reallocation, \<open>ComputeCapacity c r\<close>, is \<open>max (c * 2) r\<close>, as
  numbers (the doubling does not wrap around, a capacity being below \<open>2^63\<close>): it is at least
  double the current capacity and at least the request.
\<close>

theorem ComputeCapacity_spec:
  "sane P \<and> wf P w this \<longrightarrow>
     unat (ComputeCapacity (view_capacity (MakeStorageView P this (storages w this))) r)
       = max (unat (view_capacity (MakeStorageView P this (storages w this))) * 2) (unat r) \<and>
     unat (view_capacity (MakeStorageView P this (storages w this))) * 2
       \<le> unat (ComputeCapacity (view_capacity (MakeStorageView P this (storages w this))) r) \<and>
     unat r \<le> unat (ComputeCapacity (view_capacity (MakeStorageView P this (storages w this))) r)"
proof
  let ?c = "view_capacity (MakeStorageView P this (storages w this))"
  assume a: "sane P \<and> wf P w this"
  have "unat ?c < 2 ^ 63"
    using a by (intro wf_capacity_bound) simp_all
  then have "unat ?c * 2 < 2 ^ 64" by simp
  with ComputeCapacity_eq [of ?c r]
  have "unat (ComputeCapacity ?c r) = max (unat ?c * 2) (unat r)" by blast
  then show "unat (ComputeCapacity ?c r) = max (unat ?c * 2) (unat r) \<and>
     unat ?c * 2 \<le> unat (ComputeCapacity ?c r) \<and> unat r \<le> unat (ComputeCapacity ?c r)"
    by simp
qed

theorem ComputeCapacity_spec_witness:
  "sane example_instance \<and> wf example_instance full_inline_world 0 \<and>
   view_capacity (MakeStorageView example_instance 0 (storages full_inline_world 0)) = 2 \<and>
   unat (ComputeCapacity (view_capacity (MakeStorageView example_instance 0 (storages full_inline_world 0))) 3)
     = max (unat (view_capacity (MakeStorageView example_instance 0 (storages full_inline_world 0))) * 2)
           (unat (3 :: SizeType)) \<and>
   unat (ComputeCapacity (view_capacity (MakeStorageView example_instance 0 (storages full_inline_world 0))) 3) = 4"
proof -
  have a: "sane example_instance"
    by (simp add: sane_def example_instance_def)
  have b: "wf example_instance full_inline_world 0" by code_simp
  have c: "view_capacity (MakeStorageView example_instance 0 (storages full_inline_world 0)) = 2"
    by code_simp
  from ComputeCapacity_spec [of example_instance full_inline_world 0 3] a b
  have d: "unat (ComputeCapacity (view_capacity (MakeStorageView example_instance 0 (storages full_inline_world 0))) 3)
     = max (unat (view_capacity (MakeStorageView example_instance 0 (storages full_inline_world 0))) * 2)
           (unat (3 :: SizeType))"
    by blast
  then have e: "unat (ComputeCapacity (view_capacity (MakeStorageView example_instance 0 (storages full_inline_world 0))) 3) = 4"
    unfolding c by simp
  from a b c d e show ?thesis by blast
qed

subsection \<open>\<open>ConstructElements\<close>: the rollback, for every value source\<close>

lemma store_load:
  assumes "store P w p x = Some w1"
  shows "load P w1 p' = (if p' = p then x else load P w p')"
proof -
  from assms obtain r i xs where p: "p = Ptr r i" and g: "get_buffer P w r = Some xs"
    and i: "0 \<le> i" "nat i < length xs" and w1: "w1 = put_buffer w r (xs[nat i := x])"
    by (auto simp: store_def split: Pointer.splits option.splits if_splits)
  show ?thesis
  proof (cases p')
    case nullptr
    then show ?thesis by (simp add: load_def p)
  next
    case (Ptr r' i')
    show ?thesis
    proof (cases "r' = r")
      case True
      have "get_buffer P w1 r = Some (xs[nat i := x])" by (simp add: w1)
      with g i show ?thesis
        by (auto simp: Ptr True p load_Ptr nth_list_update)
    next
      case False
      then have "get_buffer P w1 r' = get_buffer P w r'" by (simp add: w1)
      with False show ?thesis by (simp add: Ptr p load_def)
    qed
  qed
qed

lemma store_not_nullptr: "store P w p x = Some w1 \<Longrightarrow> p \<noteq> nullptr"
  by (auto simp: store_def)

lemma destroy_Normal_load:
  assumes "destroy P p w = (Normal, w')"
  shows "p \<noteq> nullptr \<and> trace w' = trace w @ [DestroyCall p] \<and>
         (\<forall>p'. load P w' p' = (if p' = p then None else load P w p'))"
proof -
  from assms obtain w1 where s: "store P w p None = Some w1" and w': "w' = log_events [DestroyCall p] w1"
    by (auto simp: destroy_def log_event_eq split: option.splits)
  from store_load [OF s] store_not_nullptr [OF s] trace_store [OF s] show ?thesis
    by (simp add: w')
qed

lemma construct_value_Normal_load:
  assumes "construct_value P p outcome w = (Normal, w')"
  shows "p \<noteq> nullptr \<and> trace w' = trace w @ [ConstructCall p] \<and>
         (\<forall>p'. p' \<noteq> p \<longrightarrow> load P w' p' = load P w p')"
proof -
  from assms obtain v w1 where s: "store P w p (Some v) = Some w1"
    and w': "w' = log_events [ConstructCall p] w1"
    by (auto simp: construct_value_def log_event_eq split: option.splits)
  from store_load [OF s] store_not_nullptr [OF s] trace_store [OF s] show ?thesis
    by (simp add: w')
qed

lemma construct_move_Normal_load:
  assumes "construct_move P p q w = (Normal, w')"
  shows "p \<noteq> nullptr \<and> trace w' = trace w @ [ConstructCall p] \<and>
         (\<forall>p'. p' \<noteq> p \<longrightarrow> (load P w' p' = None) = (load P w p' = None))"
proof -
  from assms obtain v v' l w1 w2 where lq: "load P w q = Some v"
    and s1: "store P w q (Some l) = Some w1" and s2: "store P w1 p (Some v') = Some w2"
    and w': "w' = log_events [ConstructCall p] w2"
    by (auto simp: construct_move_def log_event_eq split: option.splits)
  from store_load [OF s1] store_load [OF s2] lq
  have "\<forall>p'. p' \<noteq> p \<longrightarrow> (load P w2 p' = None) = (load P w p' = None)"
    by auto
  with store_not_nullptr [OF s2] trace_store [OF s1] trace_store [OF s2] show ?thesis
    by (simp add: w')
qed

lemma ConstructNext_Normal_load:
  assumes "ConstructNext P vals p w = (Normal, vals', w')"
  shows "p \<noteq> nullptr \<and> trace w' = trace w @ [ConstructCall p] \<and>
         (\<forall>p'. p' \<noteq> p \<longrightarrow> (load P w' p' = None) = (load P w p' = None)) \<and>
         (external vals \<longrightarrow> external vals' \<and> (\<forall>p'. p' \<noteq> p \<longrightarrow> load P w' p' = load P w p'))"
proof (cases vals)
  case (IteratorValueAdapter it)
  with assms obtain v it' where "construct_value P p (copy_construct P v) w = (Normal, w')"
    and "vals' = IteratorValueAdapter it'"
    by (cases it) (auto split: prod.splits status.splits)
  with construct_value_Normal_load [of P p "copy_construct P v" w w'] show ?thesis
    by (simp add: external_def)
next
  case (MoveValueAdapter q)
  with assms have "construct_move P p q w = (Normal, w')"
    by (auto split: prod.splits status.splits)
  with construct_move_Normal_load [of P p q w w'] show ?thesis
    by (simp add: MoveValueAdapter external_def)
next
  case (CopyValueAdapter v)
  with assms have "construct_value P p (copy_construct P v) w = (Normal, w')"
    and "vals' = CopyValueAdapter v"
    by (auto split: prod.splits status.splits)
  with construct_value_Normal_load [of P p "copy_construct P v" w w'] show ?thesis
    by (simp add: external_def)
next
  case DefaultValueAdapter
  with assms have "construct_value P p (default_construct P) w = (Normal, w')"
    and "vals' = DefaultValueAdapter"
    by (auto split: prod.splits status.splits)
  with construct_value_Normal_load [of P p "default_construct P" w w'] show ?thesis
    by (simp add: external_def)
qed

lemma ConstructNext_Throw_same:
  assumes "ConstructNext P vals p w = (Throw, vals', w')"
  shows "w' = w"
proof (cases vals)
  case (IteratorValueAdapter it)
  with assms show ?thesis
    by (cases it) (auto simp: construct_value_def split: prod.splits status.splits option.splits)
next
  case (MoveValueAdapter q)
  with assms show ?thesis
    by (auto simp: construct_move_def split: prod.splits status.splits option.splits)
next
  case (CopyValueAdapter v)
  with assms show ?thesis
    by (auto simp: construct_value_def split: prod.splits status.splits option.splits)
next
  case DefaultValueAdapter
  with assms show ?thesis
    by (auto simp: construct_value_def split: prod.splits status.splits option.splits)
qed

lemma ptr_add_nullptr_iff [simp]: "ptr_add p n = nullptr \<longleftrightarrow> p = nullptr"
  by (cases p) simp_all

lemma DestroyElements_loop_load:
  assumes "DestroyElements_loop P first n w = (Normal, w')"
  shows "trace w' = trace w @ map (\<lambda>m. DestroyCall (ptr_add first (int m))) (rev [0..<n]) \<and>
         (\<forall>p. load P w' p = (if p \<in> (\<lambda>m. ptr_add first (int m)) ` {..<n} then None else load P w p))"
  using assms
proof (induction n arbitrary: w)
  case 0
  then show ?case by simp
next
  case (Suc n)
  from Suc.prems obtain w1 where d: "destroy P (ptr_add first (int n)) w = (Normal, w1)"
    and rest: "DestroyElements_loop P first n w1 = (Normal, w')"
    by (auto split: prod.splits status.splits)
  note a = destroy_Normal_load [OF d]
  note b = Suc.IH [OF rest]
  have "trace w' = trace w @ map (\<lambda>m. DestroyCall (ptr_add first (int m))) (rev [0..<Suc n])"
    using a b by simp
  moreover have "\<forall>p. load P w' p = (if p \<in> (\<lambda>m. ptr_add first (int m)) ` {..<Suc n} then None else load P w p)"
    using a b by (auto simp: lessThan_Suc)
  ultimately show ?case by blast
qed

lemma ConstructElements_loop_Throw_load:
  assumes "i + k < 2 ^ 64"
      and "ConstructElements_loop P first vals i k w = (Throw, vals', w')"
      and "0 < i \<longrightarrow> first \<noteq> nullptr"
  shows "\<exists>j<k. trace w' = trace w
                  @ map (\<lambda>m. ConstructCall (ptr_add first (int m))) [i..<i + j]
                  @ map (\<lambda>m. DestroyCall (ptr_add first (int m))) (rev [0..<i + j]) \<and>
               (\<forall>m<i + j. load P w' (ptr_add first (int m)) = None) \<and>
               (\<forall>p. p \<notin> (\<lambda>m. ptr_add first (int m)) ` {..<i + j}
                     \<longrightarrow> (load P w' p = None) = (load P w p = None)) \<and>
               (external vals \<longrightarrow>
                  (\<forall>p. p \<notin> (\<lambda>m. ptr_add first (int m)) ` {..<i + j} \<longrightarrow> load P w' p = load P w p))"
  using assms
proof (induction k arbitrary: vals i w)
  case 0
  then show ?case by simp
next
  case (Suc k)
  let ?slot = "\<lambda>m. ptr_add first (int m)"
  obtain st vals1 w1 where nxt: "ConstructNext P vals (?slot i) w = (st, vals1, w1)"
    by (metis prod_cases3)
  show ?case
  proof (cases st)
    case Normal
    with nxt Suc.prems(2)
    have rest: "ConstructElements_loop P first vals1 (Suc i) k w1 = (Throw, vals', w')"
      by simp
    note n = ConstructNext_Normal_load [OF nxt [unfolded Normal]]
    from n have nn: "first \<noteq> nullptr" by simp
    from Suc.prems(1) have lt: "Suc i + k < 2 ^ 64" by simp
    from Suc.IH [OF lt rest] nn obtain j where j: "j < k"
      and tr: "trace w' = trace w1 @ map (\<lambda>m. ConstructCall (?slot m)) [Suc i..<Suc i + j]
                  @ map (\<lambda>m. DestroyCall (?slot m)) (rev [0..<Suc i + j])"
      and dead: "\<forall>m<Suc i + j. load P w' (?slot m) = None"
      and live: "\<forall>p. p \<notin> ?slot ` {..<Suc i + j} \<longrightarrow> (load P w' p = None) = (load P w1 p = None)"
      and ext: "external vals1 \<longrightarrow> (\<forall>p. p \<notin> ?slot ` {..<Suc i + j} \<longrightarrow> load P w' p = load P w1 p)"
      by blast
    have in_range: "?slot i \<in> ?slot ` {..<Suc i + j}" by simp
    have 1: "trace w' = trace w @ map (\<lambda>m. ConstructCall (?slot m)) [i..<i + Suc j]
                  @ map (\<lambda>m. DestroyCall (?slot m)) (rev [0..<i + Suc j])"
      unfolding tr upt_Cons_map using n by simp
    have 2: "\<forall>m<i + Suc j. load P w' (?slot m) = None" using dead by simp
    have 3: "\<forall>p. p \<notin> ?slot ` {..<i + Suc j} \<longrightarrow> (load P w' p = None) = (load P w p = None)"
    proof (intro allI impI)
      fix p assume out: "p \<notin> ?slot ` {..<i + Suc j}"
      then have "p \<noteq> ?slot i" using in_range by auto
      with n have "(load P w1 p = None) = (load P w p = None)" by blast
      with live out show "(load P w' p = None) = (load P w p = None)" by simp
    qed
    have 4: "external vals \<longrightarrow> (\<forall>p. p \<notin> ?slot ` {..<i + Suc j} \<longrightarrow> load P w' p = load P w p)"
    proof (intro allI impI)
      fix p assume e: "external vals" and out: "p \<notin> ?slot ` {..<i + Suc j}"
      then have "p \<noteq> ?slot i" using in_range by auto
      with n e have "load P w1 p = load P w p" and "external vals1" by blast+
      with ext out show "load P w' p = load P w p" by simp
    qed
    from j 1 2 3 4 show ?thesis
      by (intro exI [of _ "Suc j"]) simp
  next
    case Throw
    from ConstructNext_Throw_same [OF nxt [unfolded Throw]] have w1: "w1 = w" .
    from nxt Throw Suc.prems(2) w1
    have de: "DestroyElements P first (of_nat i) w = (Normal, w')"
      using DestroyElements_not_Throw [of P first "of_nat i" w]
      by (auto split: prod.splits status.splits)
    from Suc.prems(1) have ui: "unat (of_nat i :: SizeType) = i"
      by (intro unat_of_nat_SizeType) simp
    show ?thesis
    proof (cases "first = nullptr")
      case True
      with Suc.prems(3) have "i = 0" by simp
      moreover from de True have "w' = w" by (simp add: DestroyElements_def)
      ultimately show ?thesis by (intro exI [of _ 0]) simp
    next
      case False
      with de ui have "DestroyElements_loop P first i w = (Normal, w')"
        by (simp add: DestroyElements_def)
      from DestroyElements_loop_load [OF this] show ?thesis
        by (intro exI [of _ 0]) simp
    qed
  next
    case Undefined
    with nxt Suc.prems(2) show ?thesis by simp
  qed
qed

text \<open>
  C4: if \<open>ConstructElements\<close>, for any destination, value source and count, fails while
  constructing element \<open>i\<close>, then the \<open>i\<close> elements it had constructed are destroyed, in
  reverse index order, before the failure propagates: the trace of allocator calls ends
  with the \<open>i\<close> constructions followed by the \<open>i\<close> destructions from index \<open>i - 1\<close> down to 0.
  Afterwards no slot of \<open>[0, i)\<close> of the destination holds a live element, and every other
  slot of the store holds a live element exactly if it did before: a destination range
  that held no live element holds none. For a value source of the caller (an iterator
  range, one value, default construction) every other slot holds what it held; a move
  source leaves the elements it moved in their moved-from state.
\<close>

theorem ConstructElements_rollback:
  assumes "ConstructElements P construct_first vals construct_size w = (Throw, vals', w')"
  shows "\<exists>i<unat construct_size.
           trace w' = trace w
             @ map (\<lambda>m. ConstructCall (ptr_add construct_first (int m))) [0..<i]
             @ map (\<lambda>m. DestroyCall (ptr_add construct_first (int m))) (rev [0..<i])
         \<and> (\<forall>m<i. load P w' (ptr_add construct_first (int m)) = None)
         \<and> (\<forall>p. p \<notin> (\<lambda>m. ptr_add construct_first (int m)) ` {..<i}
                \<longrightarrow> (load P w' p = None) = (load P w p = None))
         \<and> (external vals \<longrightarrow>
              (\<forall>p. p \<notin> (\<lambda>m. ptr_add construct_first (int m)) ` {..<i} \<longrightarrow> load P w' p = load P w p))"
proof -
  let ?k = "unat construct_size"
  from assms have loop: "ConstructElements_loop P construct_first vals 0 ?k w = (Throw, vals', w')"
    by (simp add: ConstructElements_def)
  have lt: "0 + ?k < 2 ^ 64" using unsigned_less [of construct_size, where 'a = nat] by simp
  from ConstructElements_loop_Throw_load [OF lt loop] show ?thesis by simp
qed

theorem ConstructElements_rollback_witness:
  "fst (ConstructElements example_instance (GetInlinedData 0) (IteratorValueAdapter [1, 13]) 2
          (fresh_world example_instance)) = Throw \<and>
   (\<exists>i<unat (2 :: SizeType).
      trace (snd (snd (ConstructElements example_instance (GetInlinedData 0)
                         (IteratorValueAdapter [1, 13]) 2 (fresh_world example_instance))))
        = trace (fresh_world example_instance)
          @ map (\<lambda>m. ConstructCall (ptr_add (GetInlinedData 0) (int m))) [0..<i]
          @ map (\<lambda>m. DestroyCall (ptr_add (GetInlinedData 0) (int m))) (rev [0..<i])) \<and>
   fst (ConstructElements example_instance (GetInlinedData 1) (MoveValueAdapter (GetInlinedData 0)) 2
          unlucky_world) = Throw \<and>
   (\<exists>i<unat (2 :: SizeType).
      trace (snd (snd (ConstructElements example_instance (GetInlinedData 1)
                         (MoveValueAdapter (GetInlinedData 0)) 2 unlucky_world)))
        = trace unlucky_world
          @ map (\<lambda>m. ConstructCall (ptr_add (GetInlinedData 1) (int m))) [0..<i]
          @ map (\<lambda>m. DestroyCall (ptr_add (GetInlinedData 1) (int m))) (rev [0..<i]) \<and>
      (\<forall>m<i. load example_instance
                (snd (snd (ConstructElements example_instance (GetInlinedData 1)
                             (MoveValueAdapter (GetInlinedData 0)) 2 unlucky_world)))
                (ptr_add (GetInlinedData 1) (int m)) = None))"
proof -
  let ?r = "ConstructElements example_instance (GetInlinedData 0) (IteratorValueAdapter [1, 13]) 2
              (fresh_world example_instance)"
  let ?q = "ConstructElements example_instance (GetInlinedData 1) (MoveValueAdapter (GetInlinedData 0)) 2
              unlucky_world"
  have t: "fst ?r = Throw" by code_simp
  then have h: "?r = (Throw, fst (snd ?r), snd (snd ?r))"
    by (metis prod.collapse)
  have u: "fst ?q = Throw" by code_simp
  then have g: "?q = (Throw, fst (snd ?q), snd (snd ?q))"
    by (metis prod.collapse)
  from ConstructElements_rollback [OF h] ConstructElements_rollback [OF g] t u show ?thesis
    by blast
qed

subsection \<open>\<open>Initialize\<close>: failure, for every value source\<close>

lemma ConstructElements_move_Throw_clean:
  assumes gd: "get_buffer P w rd = Some (replicate n None)" and sd: "stable w rd"
      and run: "ConstructElements P (Ptr rd 0) (MoveValueAdapter q) sz w = (Throw, vals', w')"
  shows "\<exists>es rs src src' j. rs \<noteq> rd \<and> get_buffer P w rs = Some src \<and> (\<exists>m<length src. src ! m \<noteq> None) \<and>
           length src' = length src \<and> w' = log_events es (written j w rs src')"
proof -
  let ?k = "unat sz"
  from run have loop: "ConstructElements_loop P (Ptr rd (int 0)) (MoveValueAdapter q) 0 ?k w = (Throw, vals', w')"
    by (simp add: ConstructElements_def)
  then obtain k' where k: "?k = Suc k'" by (cases ?k) auto
  have "load P w q \<noteq> None"
    using loop unfolding k
    by (auto simp: construct_move_def split: option.splits)
  then obtain v where "load P w q = Some v" by blast
  then obtain rs s src where q: "q = Ptr rs (int s)" and gs: "get_buffer P w rs = Some src"
    and sb: "s < length src" and sv: "src ! s = Some v"
    by (rule loadD)
  have ne: "rs \<noteq> rd"
  proof
    assume "rs = rd"
    with gs gd have "src = replicate n None" by simp
    with sb sv show False by simp
  qed
  have lt: "0 + ?k < 2 ^ 64" using unsigned_less [of sz, where 'a = nat] by simp
  from ConstructElements_loop_move_Throw [OF ne gs gd lt loop [unfolded q]]
  obtain j vs es where b: "\<forall>m<j. m < n" and lvs: "length vs = j" and sj: "s + j < length src"
    and w': "w' = log_events es
               (written (0 + j) (written j w rs (fill src s (map (Some \<circ> moved_from P) vs)))
                  rd (fill (replicate n None) 0 (replicate (0 + j) None)))"
    by (auto simp: drop_0)
  let ?W = "written j w rs (fill src s (map (Some \<circ> moved_from P) vs))"
  have gW: "get_buffer P ?W rd = Some (replicate n None)"
    using gd ne by (simp add: get_buffer_written)
  have sW: "stable ?W rd" using sd by (simp add: written_def)
  from written_all_None [OF gW sW, of j 0] b
  have "written j ?W rd (fill (replicate n None) 0 (replicate j None)) = ?W" by simp
  with w' have "w' = log_events es ?W" by simp
  moreover have "length (fill src s (map (Some \<circ> moved_from P) vs)) = length src"
    using sj lvs by simp
  ultimately show ?thesis using ne gs sb sv by blast
qed

lemma ConstructElements_Throw_clean:
  assumes gd: "get_buffer P w rd = Some (replicate n None)" and sd: "stable w rd"
      and run: "ConstructElements P (Ptr rd 0) vals sz w = (Throw, vals', w')"
  shows "(external vals \<longrightarrow> (\<exists>es. w' = log_events es w)) \<and>
         next_block w' = next_block w \<and> dom (heap w') = dom (heap w) \<and>
         (\<forall>i. size_and_is_allocated (storages w' i) = size_and_is_allocated (storages w i)) \<and>
         (\<forall>i p c. data (storages w i) = Allocated p c \<longrightarrow> storages w' i = storages w i) \<and>
         (\<forall>i. rd = InlinedBuffer i \<longrightarrow> storages w' i = storages w i) \<and>
         (\<forall>a. rd = HeapBlock a \<longrightarrow> heap w' a = heap w a)"
proof (cases "external vals")
  case True
  from ConstructElements_external_Throw_clean [OF True gd sd run]
  obtain es where w': "w' = log_events es w" by blast
  then show ?thesis by auto
next
  case False
  then obtain q where "vals = MoveValueAdapter q"
    by (cases vals) (simp_all add: external_def)
  with ConstructElements_move_Throw_clean [OF gd sd] run
  obtain es rs src src' j m where ne: "rs \<noteq> rd" and gs: "get_buffer P w rs = Some src"
    and m: "m < length src" "src ! m \<noteq> None" and len: "length src' = length src"
    and w': "w' = log_events es (written j w rs src')"
    by blast
  have 1: "dom (heap w') = dom (heap w)"
    using gs by (cases rs) (auto simp: w' written_def put_buffer.simps get_buffer.simps)
  have 2: "\<forall>i p c. data (storages w i) = Allocated p c \<longrightarrow> storages w' i = storages w i"
  proof (intro allI impI)
    fix i p c assume d: "data (storages w i) = Allocated p c"
    have "rs \<noteq> InlinedBuffer i"
    proof
      assume "rs = InlinedBuffer i"
      with gs d have "src = replicate (N P) None" by (simp add: get_buffer.simps)
      with m show False by simp
    qed
    then show "storages w' i = storages w i"
      by (cases rs) (simp_all add: w' written_def put_buffer.simps)
  qed
  have 3: "\<forall>i. rd = InlinedBuffer i \<longrightarrow> storages w' i = storages w i"
    using ne by (cases rs) (auto simp: w' written_def put_buffer.simps)
  have 4: "\<forall>a. rd = HeapBlock a \<longrightarrow> heap w' a = heap w a"
    using ne by (cases rs) (auto simp: w' written_def put_buffer.simps)
  from False 1 2 3 4 show ?thesis by (simp add: w')
qed

text \<open>
  C1, amended: if \<open>Initialize\<close>, called on a freshly constructed \<open>Storage\<close> with any value
  source, fails, then when the failure propagates the size is 0 and no element is live.
  If \<open>new_size \<le> N\<close>, or the allocation itself failed, the \<open>Storage\<close> is as before the call
  (empty, inline, no heap buffer) and the live heap blocks are those of before. Otherwise
  the \<open>Storage\<close> is in the allocated layout and owns the new block, in which no element is
  live; no transaction guard is involved, and it is \<open>~Storage()\<close> that then deallocates the
  block, after which the live heap blocks are those of before the call. For a value source
  of the caller (an iterator range, one value, default construction) nothing else changed
  either: every \<open>Storage\<close> object and the heap are as before; a move source keeps the
  elements it moved in their moved-from state.
\<close>

theorem Initialize_failure:
  assumes fresh_storage: "storages w this = Storage_init al P"
      and fresh: "heap w (next_block w) = None"
      and run: "Initialize P this vals new_size w = (Throw, w')"
  shows "GetSize (storages w' this) = 0 \<and>
         (if new_size \<le> GetInlinedCapacity P
             \<or> max_size P < unat (ComputeCapacity (GetInlinedCapacity P) new_size)
          then storages w' this = storages w this \<and> dom (heap w') = dom (heap w) \<and>
               (external vals \<longrightarrow> storages w' = storages w \<and> heap w' = heap w)
          else GetIsAllocated (storages w' this) \<and>
               data (storages w' this)
                 = Allocated (Ptr (HeapBlock (next_block w)) 0) (ComputeCapacity (GetInlinedCapacity P) new_size) \<and>
               heap w' (next_block w)
                 = Some (replicate (unat (ComputeCapacity (GetInlinedCapacity P) new_size)) None) \<and>
               dom (heap w') = insert (next_block w) (dom (heap w)) \<and>
               (external vals \<longrightarrow>
                  heap w' = (heap w)(next_block w \<mapsto>
                               replicate (unat (ComputeCapacity (GetInlinedCapacity P) new_size)) None))) \<and>
         (\<exists>w''. Storage_dtor P this w' = (Normal, w'') \<and> dom (heap w'') = dom (heap w) \<and>
                (external vals \<longrightarrow> heap w'' = heap w))"
proof -
  let ?c = "ComputeCapacity (GetInlinedCapacity P) new_size"
  let ?nb = "next_block w"
  show ?thesis
  proof (cases "new_size \<le> GetInlinedCapacity P")
    case True
    obtain st3 vals3 w3 where ce: "ConstructElements P (Ptr (InlinedBuffer this) 0) vals new_size w = (st3, vals3, w3)"
      by (metis prod_cases3)
    from True have nb: "\<not> GetInlinedCapacity P < new_size" by simp
    with ce run fresh_storage have st3: "st3 = Throw" and w3: "w3 = w'"
      by (auto simp: Initialize_def GetInlinedData_def split: status.splits)
    have g: "get_buffer P w (InlinedBuffer this) = Some (replicate (N P) None)"
      by (simp add: fresh_storage get_buffer.simps)
    have s: "stable w (InlinedBuffer this)"
      by (simp add: stable_def fresh_storage)
    note cl = ConstructElements_Throw_clean [OF g s ce [unfolded st3 w3]]
    from cl have same: "storages w' this = storages w this" and dm: "dom (heap w') = dom (heap w)"
      by simp_all
    have ext: "external vals \<longrightarrow> storages w' = storages w \<and> heap w' = heap w"
      using cl by auto
    have dt: "Storage_dtor P this w' = (Normal, w')"
      by (simp add: Storage_dtor_def same fresh_storage)
    from same dm ext dt True show ?thesis
      by (auto simp: fresh_storage)
  next
    case False
    then have big: "GetInlinedCapacity P < new_size" by simp
    show ?thesis
    proof (cases "max_size P < unat ?c")
      case True
      with run big fresh_storage have "w' = w"
        by (simp add: Initialize_def Let_def allocate_eq)
      then show ?thesis
        using True by (simp add: fresh_storage Storage_dtor_def)
    next
      case False
      let ?p = "Ptr (HeapBlock ?nb) 0"
      let ?w2 = "upd_storage this (SetIsAllocated \<circ> SetAllocatedData ?p ?c)
                   (log_events [AllocateCall ?nb ?c]
                      (w\<lparr>heap := (heap w)(?nb \<mapsto> replicate (unat ?c) None), next_block := Suc ?nb\<rparr>))"
      obtain st3 vals3 w3 where ce: "ConstructElements P ?p vals new_size ?w2 = (st3, vals3, w3)"
        by (metis prod_cases3)
      with run big False fresh_storage have st3: "st3 = Throw" and w3: "w3 = w'"
        by (auto simp: Initialize_def Let_def allocate_eq split: status.splits)
      have g: "get_buffer P ?w2 (HeapBlock ?nb) = Some (replicate (unat ?c) None)"
        by (simp add: upd_storage_def get_buffer.simps)
      have s: "stable ?w2 (HeapBlock ?nb)"
        by (simp add: stable_def)
      note cl = ConstructElements_Throw_clean [OF g s ce [unfolded st3 w3]]
      have d2: "data (storages ?w2 this) = Allocated ?p ?c"
        by (simp add: SetIsAllocated_def SetAllocatedData_def)
      with cl have st: "storages w' this = storages ?w2 this" by blast
      have sz: "size_and_is_allocated (storages w' this) = 1"
        by (simp add: st fresh_storage SetIsAllocated_def SetAllocatedData_def)
      have dat: "data (storages w' this) = Allocated ?p ?c"
        by (simp add: st SetIsAllocated_def SetAllocatedData_def)
      have hp: "heap w' ?nb = Some (replicate (unat ?c) None)"
        using cl by simp
      have dm: "dom (heap w') = insert ?nb (dom (heap w))"
        using cl by simp
      have ext: "external vals \<longrightarrow> heap w' = (heap w)(?nb \<mapsto> replicate (unat ?c) None)"
        using cl by auto
      have al: "GetIsAllocated (storages w' this)" and gs: "GetSize (storages w' this) = 0"
        by (simp_all add: GetIsAllocated_def GetSize_def sz)
      have dea: "DeallocateIfAllocated P this w'
                 = (Normal, log_events [DeallocateCall ?nb ?c] (w'\<lparr>heap := (heap w')(?nb := None)\<rparr>))"
        by (simp add: DeallocateIfAllocated_def al GetAllocatedData_def GetAllocatedCapacity_def dat
                      deallocate_def hp log_event_eq)
      have dtor: "Storage_dtor P this w'
            = (Normal, log_events [DeallocateCall ?nb ?c] (w'\<lparr>heap := (heap w')(?nb := None)\<rparr>))"
        by (simp add: Storage_dtor_def sz DestroyContents_def al gs GetAllocatedData_def dat dea)
      have dm2: "dom ((heap w')(?nb := None)) = dom (heap w)"
        using dm fresh by (auto simp: domIff)
      have ext2: "external vals \<longrightarrow> (heap w')(?nb := None) = heap w"
        using ext fresh by (auto simp: fun_upd_idem)
      have nle: "\<not> new_size \<le> GetInlinedCapacity P" using big by simp
      from False nle al gs dat hp dm ext dtor dm2 ext2 show ?thesis
        by simp
    qed
  qed
qed

theorem Initialize_failure_witness:
  "storages (fresh_world example_instance) 0 = Storage_init 0 example_instance \<and>
   heap (fresh_world example_instance) (next_block (fresh_world example_instance)) = None \<and>
   external (IteratorValueAdapter [1, 2, 13 :: nat]) \<and>
   fst (Initialize example_instance 0 (IteratorValueAdapter [1, 2, 13]) 3 (fresh_world example_instance)) = Throw \<and>
   (\<exists>w''. Storage_dtor example_instance 0
            (snd (Initialize example_instance 0 (IteratorValueAdapter [1, 2, 13]) 3
                    (fresh_world example_instance))) = (Normal, w'') \<and>
          heap w'' = heap (fresh_world example_instance)) \<and>
   storages unlucky_world 1 = Storage_init 0 example_instance \<and>
   heap unlucky_world (next_block unlucky_world) = None \<and>
   fst (Initialize example_instance 1 (MoveValueAdapter (GetInlinedData 0)) 2 unlucky_world) = Throw \<and>
   storages (snd (Initialize example_instance 1 (MoveValueAdapter (GetInlinedData 0)) 2 unlucky_world)) 1
     = storages unlucky_world 1"
proof -
  let ?r = "Initialize example_instance 0 (IteratorValueAdapter [1, 2, 13]) 3 (fresh_world example_instance)"
  let ?q = "Initialize example_instance 1 (MoveValueAdapter (GetInlinedData 0)) 2 unlucky_world"
  have a: "storages (fresh_world example_instance) 0 = Storage_init 0 example_instance"
    by (simp add: fresh_world_def)
  have b: "heap (fresh_world example_instance) (next_block (fresh_world example_instance)) = None"
    by (simp add: fresh_world_def)
  have c: "external (IteratorValueAdapter [1, 2, 13 :: nat])"
    by (simp add: external_def)
  have t: "fst ?r = Throw"
    by code_simp
  then have d: "?r = (Throw, snd ?r)"
    by (metis prod.collapse)
  have a': "storages unlucky_world 1 = Storage_init 0 example_instance"
    by code_simp
  have b': "heap unlucky_world (next_block unlucky_world) = None"
    by code_simp
  have t': "fst ?q = Throw"
    by code_simp
  then have d': "?q = (Throw, snd ?q)"
    by (metis prod.collapse)
  have small: "(2 :: SizeType) \<le> GetInlinedCapacity example_instance"
    by code_simp
  from Initialize_failure [OF a b d] c
  have 1: "\<exists>w''. Storage_dtor example_instance 0 (snd ?r) = (Normal, w'') \<and>
          heap w'' = heap (fresh_world example_instance)"
    by blast
  from Initialize_failure [OF a' b' d'] small
  have 2: "storages (snd ?q) 1 = storages unlucky_world 1"
    by simp
  from a b c t 1 a' b' t' 2 show ?thesis by blast
qed

subsection \<open>\<open>EmplaceBack\<close>: the new element is constructed first\<close>

lemma full_capacity_doubles:
  assumes sane: "sane P" and wf: "wf P w this"
      and full: "view_size (MakeStorageView P this (storages w this))
                   = view_capacity (MakeStorageView P this (storages w this))"
  shows "unat (view_size (MakeStorageView P this (storages w this)))
         < unat (NextCapacity (view_capacity (MakeStorageView P this (storages w this))))"
proof -
  let ?c = "view_capacity (MakeStorageView P this (storages w this))"
  from wf_buffer [OF sane wf] have "N P \<le> unat ?c" by blast
  with sane have pos: "0 < unat ?c" by (simp add: sane_def)
  from wf_capacity_bound [OF sane wf] have "unat ?c < 2 ^ 63" .
  then have "unat (?c * 2) = unat ?c * 2" by (rule unat_times_2)
  then have d: "unat (NextCapacity ?c) = unat ?c * 2" by (simp only: NextCapacity_def)
  have e: "unat (view_size (MakeStorageView P this (storages w this))) = unat ?c"
    by (simp only: full)
  from pos d e show ?thesis by linarith
qed

lemma EmplaceBackSlow_constructs_first:
  assumes sane: "sane P" and wf: "wf P w this"
      and full: "view_size (MakeStorageView P this (storages w this))
                   = view_capacity (MakeStorageView P this (storages w this))"
      and ok: "\<not> max_size P < unat (NextCapacity (view_capacity (MakeStorageView P this (storages w this))))"
      and run: "EmplaceBackSlow P this (Some v) w = (st, w')"
  shows "\<exists>es. trace w' = trace w
           @ AllocateCall (next_block w) (NextCapacity (view_capacity (MakeStorageView P this (storages w this))))
           # ConstructCall (Ptr (HeapBlock (next_block w)) (uint (view_size (MakeStorageView P this (storages w this)))))
           # es"
proof -
  let ?sv = "MakeStorageView P this (storages w this)"
  let ?c = "NextCapacity (view_capacity ?sv)"
  let ?last = "Ptr (HeapBlock (next_block w)) (uint (view_size ?sv))"
  let ?tx = "\<lparr>at_data = Ptr (HeapBlock (next_block w)) 0, at_capacity = ?c\<rparr>"
  let ?w1 = "log_events [AllocateCall (next_block w) ?c]
               (w\<lparr>heap := (heap w)(next_block w \<mapsto> replicate (unat ?c) None),
                  next_block := Suc (next_block w)\<rparr>)"
  have g1n: "get_buffer P ?w1 (HeapBlock (next_block w)) = Some (replicate (unat ?c) None)"
    by (simp add: get_buffer.simps)
  note szc = full_capacity_doubles [OF sane wf full]
  let ?w2 = "log_events [ConstructCall ?last]
               (put_buffer ?w1 (HeapBlock (next_block w)) ((replicate (unat ?c) None)[unat (view_size ?sv) := Some v]))"
  have cv: "construct_value P ?last (Some v) ?w1 = (Normal, ?w2)"
    using szc by (simp add: construct_value_Ptr [OF g1n])
  have t2: "trace ?w2 = trace w @ [AllocateCall (next_block w) ?c, ConstructCall ?last]"
    by simp
  obtain st3 mv w3 where ce: "ConstructElements P (at_data ?tx) (MoveValueAdapter (view_data ?sv)) (view_size ?sv) ?w2 = (st3, mv, w3)"
    by (metis prod_cases3)
  obtain st4 w4 where de: "DestroyElements P (view_data ?sv) (view_size ?sv) w3 = (st4, w4)"
    by (metis prod.exhaust)
  obtain st5 w5 where da: "DeallocateIfAllocated P this w4 = (st5, w5)"
    by (metis prod.exhaust)
  obtain st6 w6 where ds: "destroy P ?last w3 = (st6, w6)"
    by (metis prod.exhaust)
  obtain st7 w7 where uw: "unwind [AllocationTransaction_dtor P ?tx] w6 = (st7, w7)"
    by (metis prod.exhaust)
  have e3: "extends ?w2 w3" using extends_ConstructElements [of ?w2 P "at_data ?tx" "MoveValueAdapter (view_data ?sv)" "view_size ?sv"] ce by simp
  have e4: "extends w3 w4" using extends_DestroyElements [of w3 P "view_data ?sv" "view_size ?sv"] de by simp
  have e5: "extends w4 w5" using extends_DeallocateIfAllocated [of w4 P this] da by simp
  have e6: "extends w3 w6" using extends_destroy [of w3 P ?last] ds by simp
  have e7: "extends w6 w7" using extends_unwind_AllocationTransaction [of w6 P ?tx] uw by simp
  have "w' = w3 \<or> w' = w4 \<or> w' = w5
        \<or> w' = upd_storage this (AddSize 1 \<circ> SetIsAllocated \<circ> AcquireAllocatedData ?tx) w5
        \<or> w' = w6 \<or> w' = w7"
    using run ok cv ce de da ds uw
    by (simp add: EmplaceBackSlow_def Let_def Allocate_def allocate_eq del: unwind.simps
             split: status.splits)
  then have "extends ?w2 w'"
    using e3 e4 e5 e6 e7 by (auto intro: extends_trans)
  with t2 show ?thesis
    by (auto simp: extends_def)
qed

text \<open>
  C2: when the size of a \<open>Storage\<close> equals its capacity, \<open>EmplaceBack\<close> is \<open>EmplaceBackSlow\<close>.
  There, on a well-formed \<open>Storage\<close>, the new element is constructed into the newly
  allocated buffer before any existing element is moved: whatever the outcome of the call,
  once the allocation succeeded the trace of allocator calls continues with the allocation,
  then the construction at index \<open>size\<close> of the new block, then everything else. If
  constructing the new element fails, the call throws with every \<open>Storage\<close> object (size,
  capacity, layout, elements) and the heap exactly as before the call: nothing was
  constructed or destroyed, and the block that was allocated has been deallocated. (The
  hypothesis on \<open>next_block\<close> says that the allocator hands out a block that is not in use.)
\<close>

theorem EmplaceBack_new_element_failure:
  assumes full: "view_size (MakeStorageView P this (storages w this))
                   = view_capacity (MakeStorageView P this (storages w this))"
      and fresh: "heap w (next_block w) = None"
  shows "(\<forall>args. EmplaceBack P this args w = EmplaceBackSlow P this args w) \<and>
         (sane P \<and> wf P w this
              \<and> \<not> max_size P < unat (NextCapacity (view_capacity (MakeStorageView P this (storages w this))))
            \<longrightarrow> (\<forall>v. \<exists>es. trace (snd (EmplaceBack P this (Some v) w)) = trace w
                   @ AllocateCall (next_block w) (NextCapacity (view_capacity (MakeStorageView P this (storages w this))))
                   # ConstructCall (Ptr (HeapBlock (next_block w)) (uint (view_size (MakeStorageView P this (storages w this)))))
                   # es)) \<and>
         (\<exists>w'. EmplaceBack P this None w = (Throw, w') \<and> storages w' = storages w \<and> heap w' = heap w
           \<and> (\<exists>es. trace w' = trace w @ es \<and> (\<forall>e\<in>set es. \<forall>p. e \<noteq> ConstructCall p \<and> e \<noteq> DestroyCall p)
                 \<and> (\<forall>a n. AllocateCall a n \<in> set es \<longrightarrow> DeallocateCall a n \<in> set es)))"
proof -
  note 1 = EmplaceBack_full [OF full]
  let ?c = "NextCapacity (view_capacity (MakeStorageView P this (storages w this)))"
  have "\<exists>w'. EmplaceBack P this None w = (Throw, w') \<and> storages w' = storages w \<and> heap w' = heap w
           \<and> (\<exists>es. trace w' = trace w @ es \<and> (\<forall>e\<in>set es. \<forall>p. e \<noteq> ConstructCall p \<and> e \<noteq> DestroyCall p)
                 \<and> (\<forall>a n. AllocateCall a n \<in> set es \<longrightarrow> DeallocateCall a n \<in> set es))"
  proof (cases "max_size P < unat ?c")
    case True
    then have "EmplaceBack P this None w = (Throw, w)"
      by (simp add: 1 EmplaceBackSlow_def Let_def Allocate_def allocate_eq)
    then show ?thesis by simp
  next
    case False
    then have "EmplaceBack P this None w
      = (Throw, log_events [AllocateCall (next_block w) ?c, DeallocateCall (next_block w) ?c]
                  (w\<lparr>next_block := Suc (next_block w)\<rparr>))"
      using fresh
      by (simp add: 1 EmplaceBackSlow_def Let_def Allocate_def allocate_eq construct_value_def
                    AllocationTransaction_dtor_def DidAllocate_def deallocate_fresh)
    then show ?thesis by simp
  qed
  moreover have "sane P \<and> wf P w this \<and> \<not> max_size P < unat ?c
            \<longrightarrow> (\<forall>v. \<exists>es. trace (snd (EmplaceBack P this (Some v) w)) = trace w
                   @ AllocateCall (next_block w) ?c
                   # ConstructCall (Ptr (HeapBlock (next_block w)) (uint (view_size (MakeStorageView P this (storages w this)))))
                   # es)"
  proof (intro impI allI)
    fix v
    assume a: "sane P \<and> wf P w this \<and> \<not> max_size P < unat ?c"
    have r: "EmplaceBackSlow P this (Some v) w
             = (fst (EmplaceBackSlow P this (Some v) w), snd (EmplaceBackSlow P this (Some v) w))"
      by simp
    from a have "sane P" "wf P w this" "\<not> max_size P < unat ?c" by simp_all
    from EmplaceBackSlow_constructs_first [OF this(1,2) full this(3) r]
    show "\<exists>es. trace (snd (EmplaceBack P this (Some v) w)) = trace w
                   @ AllocateCall (next_block w) ?c
                   # ConstructCall (Ptr (HeapBlock (next_block w)) (uint (view_size (MakeStorageView P this (storages w this)))))
                   # es"
      unfolding 1 .
  qed
  ultimately show ?thesis using 1 by blast
qed

theorem EmplaceBack_new_element_failure_witness:
  "view_size (MakeStorageView example_instance 0 (storages full_inline_world 0))
     = view_capacity (MakeStorageView example_instance 0 (storages full_inline_world 0)) \<and>
   heap full_inline_world (next_block full_inline_world) = None \<and>
   (\<exists>w'. EmplaceBack example_instance 0 None full_inline_world = (Throw, w') \<and>
          storages w' = storages full_inline_world \<and> heap w' = heap full_inline_world) \<and>
   sane example_instance \<and> wf example_instance full_inline_world 0 \<and>
   \<not> max_size example_instance
       < unat (NextCapacity (view_capacity (MakeStorageView example_instance 0 (storages full_inline_world 0)))) \<and>
   fst (EmplaceBack example_instance 0 (Some 3) full_inline_world) = Normal \<and>
   (\<exists>es. trace (snd (EmplaceBack example_instance 0 (Some 3) full_inline_world))
          = trace full_inline_world
            @ AllocateCall (next_block full_inline_world)
                (NextCapacity (view_capacity (MakeStorageView example_instance 0 (storages full_inline_world 0))))
            # ConstructCall (Ptr (HeapBlock (next_block full_inline_world))
                (uint (view_size (MakeStorageView example_instance 0 (storages full_inline_world 0)))))
            # es)"
proof -
  have a: "view_size (MakeStorageView example_instance 0 (storages full_inline_world 0))
     = view_capacity (MakeStorageView example_instance 0 (storages full_inline_world 0))"
    by code_simp
  have b: "heap full_inline_world (next_block full_inline_world) = None"
    by code_simp
  have c: "sane example_instance"
    by (simp add: sane_def example_instance_def)
  have d: "wf example_instance full_inline_world 0" by code_simp
  have e: "\<not> max_size example_instance
       < unat (NextCapacity (view_capacity (MakeStorageView example_instance 0 (storages full_inline_world 0))))"
    by code_simp
  have f: "fst (EmplaceBack example_instance 0 (Some 3) full_inline_world) = Normal"
    by code_simp
  from EmplaceBack_new_element_failure [OF a b] a b c d e f show ?thesis
    by blast
qed

end
